theory Spec2Isabelle
  imports
    Complex_Main
    "HOL-Library.Char_ord"
    "HOL-Library.List_Lexorder"
    "HOL-Library.Product_Lexorder"
    "HOL-Library.Multiset"
begin

section \<open>Conventions\<close>

text \<open>
  The backend works on pandas dataframes. A dataframe is modelled by the list of its
  column names together with the list of its rows; a row is a record holding the key
  columns the code reads by name, and a map from column name to value for the numeric
  columns. A null cell (\<open>NaN\<close>, \<open>None\<close>) is \<open>None\<close>; the key cells (vehicle, lap,
  timestamp) are never null, except in \<open>wide_row\<close>, where \<open>groupby\<close> has to skip the
  rows with a null key. Python floats are idealised as \<^typ>\<open>real\<close>: rounding is not
  modelled. Strings are ordered as Python orders them (lexicographically by character),
  timestamps are integers on a fixed time unit. \<open>sort_values\<close> is the stable
  \<open>sort_key\<close>. Exceptions are values of type \<open>error\<close>; a fallible function returns
  \<open>error + 'a\<close>. The column labels of a frame decide which exception pandas raises, so
  the lap window builder, the lap assigner and the signal pivot check them as pandas
  does. Where the code would go on with cells that the rows of the model do not hold (a
  label that heads several columns and is read as one, a vehicle column that is also a
  time column), the model stops with \<open>Unmodelled\<close>: a statement about a call that
  returns normally says nothing about such an input.
\<close>

datatype error =
    MissingColumns string "string list"   \<comment> \<open>\<open>ValueError\<close>: a frame lacks the listed columns\<close>
  | NoTelemetryColumns                    \<comment> \<open>\<open>ValueError\<close> of \<open>aggregate_per_lap\<close>\<close>
  | KeyError string                       \<comment> \<open>pandas: a column read by name is absent\<close>
  | MergeError                            \<comment> \<open>pandas: a merge refuses its keys or its suffixes\<close>
  | NotUnique string                      \<comment> \<open>\<open>ValueError\<close> of \<open>sort_values\<close>: the label heads several columns\<close>
  | CannotInsert                          \<comment> \<open>\<open>ValueError\<close> of \<open>reset_index\<close>: the label exists\<close>
  | Unmodelled                            \<comment> \<open>an input that this model does not describe\<close>

definition dropna :: "'a option list \<Rightarrow> 'a list" where
  "dropna xs = concat (map (\<lambda>x. case x of None \<Rightarrow> [] | Some v \<Rightarrow> [v]) xs)"

fun list_min :: "'a::linorder list \<Rightarrow> 'a" where
  "list_min [] = undefined"
| "list_min [x] = x"
| "list_min (x # y # ys) = min x (list_min (y # ys))"

fun list_max :: "'a::linorder list \<Rightarrow> 'a" where
  "list_max [] = undefined"
| "list_max [x] = x"
| "list_max (x # y # ys) = max x (list_max (y # ys))"

section \<open>karma\_stream.py: the component risk engine\<close>

record ComponentSpec =
  name :: string
  feature_weights :: "(string \<times> real) list"   \<comment> \<open>a dict, in insertion order\<close>
  description :: string

definition COMPONENT_SPECS :: "ComponentSpec list" where
  "COMPONENT_SPECS =
    [ \<lparr>name = ''engine'',
       feature_weights = [(''speed_mean'', 4/10), (''nmot_mean'', 6/10)],
       description = ''RPM + sustained speed stress''\<rparr>,
      \<lparr>name = ''gearbox'',
       feature_weights = [(''gear_mean'', 5/10), (''accx_can_std'', 5/10)],
       description = ''Gear usage and longitudinal jolts''\<rparr>,
      \<lparr>name = ''brakes'',
       feature_weights = [(''pbrake_f_max'', 6/10), (''pbrake_r_max'', 4/10)],
       description = ''Brake pressure spikes front/rear''\<rparr>,
      \<lparr>name = ''tires'',
       feature_weights = [(''speed_mean'', 3/10), (''Steering_Angle_std'', 7/10)],
       description = ''Cornering + abrasion load''\<rparr> ]"

text \<open>
  One row of the per-lap feature table: \<open>row["vehicle_id"]\<close>, \<open>int(row["lap"])\<close>, and
  \<open>cells r c\<close> for what \<open>row.get(c)\<close> yields, \<open>None\<close> when the cell is null or the
  column does not exist.
\<close>

record lap_row =
  vehicle_id :: string
  lap :: int
  cells :: "string \<rightharpoonup> real"

record dataframe =
  columns :: "string list"
  rows :: "lap_row list"

text \<open>\<open>df.empty\<close>: some axis has length zero.\<close>

definition df_empty :: "dataframe \<Rightarrow> bool" where
  "df_empty df \<longleftrightarrow> rows df = [] \<or> columns df = []"

type_synonym col_stats = "string \<rightharpoonup> real \<times> real"

definition column_stats :: "dataframe \<Rightarrow> string list \<Rightarrow> col_stats" where
  "column_stats df cols =
     fold (\<lambda>col stats.
             let series = dropna (map (\<lambda>r. cells r col) (rows df))
             in if series = [] then stats(col \<mapsto> (0, 0))
                else stats(col \<mapsto> (list_min series, list_max series)))
          cols Map.empty"

definition normalize_val :: "real option \<Rightarrow> real \<Rightarrow> real \<Rightarrow> real" where
  "normalize_val v min_val max_val =
     (case v of
        None \<Rightarrow> 0
      | Some x \<Rightarrow>
          if max_val \<le> min_val then 0
          else max 0 (min 1 ((x - min_val) / (max_val - min_val))))"

text \<open>\<open>stats.get(feature, (0.0, 0.0))\<close>\<close>

definition stats_get :: "col_stats \<Rightarrow> string \<Rightarrow> real \<times> real" where
  "stats_get st feature = (case st feature of None \<Rightarrow> (0, 0) | Some b \<Rightarrow> b)"

text \<open>
  The loop of \<open>_component_score\<close> over the items of \<open>spec.feature_weights\<close>; the
  accumulator is the pair \<open>(weighted_sum, total_weight)\<close>.
\<close>

fun score_loop ::
  "lap_row \<Rightarrow> col_stats \<Rightarrow> (string \<times> real) list \<Rightarrow> real \<times> real \<Rightarrow> real \<times> real" where
  "score_loop row st [] acc = acc"
| "score_loop row st ((feature, weight) # rest) (weighted_sum, total_weight) =
     (let (min_val, max_val) = stats_get st feature;
          norm_val = normalize_val (cells row feature) min_val max_val
      in score_loop row st rest (weighted_sum + weight * norm_val, total_weight + weight))"

definition component_score :: "lap_row \<Rightarrow> col_stats \<Rightarrow> ComponentSpec \<Rightarrow> real" where
  "component_score row st spec =
     (let (weighted_sum, total_weight) = score_loop row st (feature_weights spec) (0, 0)
      in if total_weight = 0 then 0 else weighted_sum / total_weight)"

record score_record =
  rec_vehicle_id :: string
  rec_lap :: int
  component :: string
  instant_score :: real
  karma_score :: real

record score_frame =
  out_columns :: "string list"
  records :: "score_record list"

type_synonym smoothed_scores = "string \<times> string \<rightharpoonup> real"
type_synonym vehicle_start_laps = "string \<rightharpoonup> int"

text \<open>
  The inner loop \<open>for spec in COMPONENT_SPECS\<close> for one row: it threads the dict
  \<open>smoothed_scores\<close> and yields the records appended for this row.
\<close>

fun spec_loop ::
  "real \<Rightarrow> real \<Rightarrow> col_stats \<Rightarrow> lap_row \<Rightarrow> int \<Rightarrow> ComponentSpec list \<Rightarrow> smoothed_scores
     \<Rightarrow> smoothed_scores \<times> score_record list" where
  "spec_loop smoothing wear_rate st row relative_lap [] sm = (sm, [])"
| "spec_loop smoothing wear_rate st row relative_lap (spec # specs) sm =
     (let instant = component_score row st spec;
          key = (vehicle_id row, name spec);
          prev = (case sm key of None \<Rightarrow> instant | Some p \<Rightarrow> p);
          smoothed = smoothing * prev + (1 - smoothing) * instant;
          wear_accumulation = min (1/2) (wear_rate * of_int relative_lap);
          stress_multiplier = 1 + instant * (1/2);
          total_wear = wear_accumulation * stress_multiplier;
          final_karma = min 1 (smoothed + total_wear);
          (sm', recs) = spec_loop smoothing wear_rate st row relative_lap specs
                          (sm(key \<mapsto> final_karma))
      in (sm',
          \<lparr>rec_vehicle_id = vehicle_id row, rec_lap = lap row, component = name spec,
           instant_score = instant, karma_score = final_karma\<rparr> # recs))"

text \<open>
  The outer loop \<open>for _, row in sorted_df.iterrows()\<close>, threading \<open>smoothed_scores\<close>
  and \<open>vehicle_start_laps\<close>.
\<close>

fun row_loop ::
  "real \<Rightarrow> real \<Rightarrow> col_stats \<Rightarrow> ComponentSpec list \<Rightarrow> lap_row list
     \<Rightarrow> smoothed_scores \<Rightarrow> vehicle_start_laps \<Rightarrow> score_record list" where
  "row_loop smoothing wear_rate st specs [] sm starts = []"
| "row_loop smoothing wear_rate st specs (row # rest) sm starts =
     (let starts' = (if starts (vehicle_id row) = None
                     then starts(vehicle_id row \<mapsto> lap row) else starts);
          relative_lap = lap row - the (starts' (vehicle_id row)) + 1;
          (sm', recs) = spec_loop smoothing wear_rate st row relative_lap specs sm
      in recs @ row_loop smoothing wear_rate st specs rest sm' starts')"

text \<open>
  \<open>required_cols\<close> is a Python set; the order in which it is enumerated is not
  fixed by the language. The model enumerates it in one fixed order, and every
  statement below speaks of it as a set only.
\<close>

definition required_cols :: "string list" where
  "required_cols = remdups (concat (map (\<lambda>spec. map fst (feature_weights spec)) COMPONENT_SPECS))"

definition score_columns :: "string list" where
  "score_columns = [''vehicle_id'', ''lap'', ''component'', ''instant_score'', ''karma_score'']"

definition sort_rows :: "lap_row list \<Rightarrow> lap_row list" where
  "sort_rows rs = sort_key (\<lambda>r. (vehicle_id r, lap r)) rs"

definition compute_stream :: "real \<Rightarrow> real \<Rightarrow> dataframe \<Rightarrow> error + score_frame" where
  "compute_stream smoothing wear_rate df =
     (if df_empty df then Inr \<lparr>out_columns = score_columns, records = []\<rparr>
      else
        let missing = filter (\<lambda>col. col \<notin> set (columns df)) required_cols in
        if missing \<noteq> [] then
          Inl (MissingColumns ''Dataset missing required columns for karma stream'' missing)
        else if ''vehicle_id'' \<notin> set (columns df) then Inl (KeyError ''vehicle_id'')
        else if ''lap'' \<notin> set (columns df) then Inl (KeyError ''lap'')
        else
          let st = column_stats df required_cols;
              sorted_df = sort_rows (rows df)
          in Inr \<lparr>out_columns = score_columns,
                  records = row_loop smoothing wear_rate st COMPONENT_SPECS sorted_df
                              Map.empty Map.empty\<rparr>)"

text \<open>
  The instant score as the specification words it: the weighted average of the
  normalised features over the weights whose feature is non-null in the row, and 0 when
  no feature qualifies.
\<close>

definition spec_instant_score :: "lap_row \<Rightarrow> col_stats \<Rightarrow> ComponentSpec \<Rightarrow> real" where
  "spec_instant_score row st spec =
     (let present = filter (\<lambda>(f, w). cells row f \<noteq> None) (feature_weights spec)
      in if present = [] then 0
         else (\<Sum>(f, w) \<leftarrow> present.
                 w * normalize_val (cells row f) (fst (stats_get st f)) (snd (stats_get st f)))
              / (\<Sum>(f, w) \<leftarrow> present. w))"

section \<open>utils.py and config.py\<close>

definition ensure_columns :: "string list \<Rightarrow> string list \<Rightarrow> string \<Rightarrow> error + unit" where
  "ensure_columns df_columns required df_name =
     (let missing = filter (\<lambda>col. col \<notin> set df_columns) required
      in if missing \<noteq> [] then Inl (MissingColumns df_name missing) else Inr ())"

text \<open>The defaults of the two environment-configurable column names.\<close>

definition DEFAULT_TIMESTAMP_COL :: string where
  "DEFAULT_TIMESTAMP_COL = ''meta_time''"

definition DEFAULT_VEHICLE_COL :: string where
  "DEFAULT_VEHICLE_COL = ''vehicle_id''"

definition LAP_META_COLUMNS :: "string list" where
  "LAP_META_COLUMNS = [''vehicle_id'', ''lap_number'', ''lap_start_time'', ''lap_end_time'']"

record AggregationSpec =
  column :: string
  stats :: "string list"
  rename :: "(string \<times> string) list option"


section \<open>pandas: column labels\<close>

text \<open>
  \<open>df.sort_values(by)\<close> looks each label up among the columns: an absent label is a
  \<open>KeyError\<close>, a label that heads several columns a \<open>ValueError\<close>.
\<close>

fun sort_values_labels :: "string list \<Rightarrow> string list \<Rightarrow> error + unit" where
  "sort_values_labels cols [] = Inr ()"
| "sort_values_labels cols (k # ks) =
     (if k \<notin> set cols then Inl (KeyError k)
      else if 1 < count_list cols k then Inl (NotUnique k)
      else sort_values_labels cols ks)"

text \<open>
  \<open>df[label]\<close> raises \<open>KeyError\<close> for an absent label. For a label that heads
  several columns it gives a frame with all of them, not the one column of cells that
  the code goes on to compare or subtract.
\<close>

fun getitem_labels :: "string list \<Rightarrow> string list \<Rightarrow> error + unit" where
  "getitem_labels cols [] = Inr ()"
| "getitem_labels cols (k # ks) =
     (if k \<notin> set cols then Inl (KeyError k)
      else if 1 < count_list cols k then Inl Unmodelled
      else getitem_labels cols ks)"

text \<open>\<open>Index.duplicated()\<close>: true at a label that has occurred before.\<close>

fun duplicated_from :: "'a list \<Rightarrow> 'a list \<Rightarrow> bool list" where
  "duplicated_from seen [] = []"
| "duplicated_from seen (x # xs) = (x \<in> set seen) # duplicated_from (x # seen) xs"

definition duplicated :: "'a list \<Rightarrow> bool list" where
  "duplicated xs = duplicated_from [] xs"

text \<open>
  The column labels of \<open>left.merge(right)\<close>, where \<open>right\<close> has lost its key columns:
  a label that both sides have takes the suffix \<open>_x\<close> on the left and \<open>_y\<close> on the
  right, and the merge raises when a suffix makes a label repeat on its side.
\<close>

definition suffix_caused_dups :: "'a list \<Rightarrow> 'a list \<Rightarrow> bool" where
  "suffix_caused_dups original relabelled =
     list_ex (\<lambda>(d_new, d_old). d_new \<and> \<not> d_old) (zip (duplicated relabelled) (duplicated original))"

definition merge_labels ::
  "('a \<Rightarrow> string \<Rightarrow> 'a) \<Rightarrow> 'a list \<Rightarrow> 'a list \<Rightarrow> error + 'a list \<times> 'a list" where
  "merge_labels add_suffix left right =
     (let llabels = map (\<lambda>x. if x \<in> set right then add_suffix x ''_x'' else x) left;
          rlabels = map (\<lambda>x. if x \<in> set left then add_suffix x ''_y'' else x) right
      in if suffix_caused_dups left llabels \<or> suffix_caused_dups right rlabels then Inl MergeError
         else Inr (llabels, rlabels))"

section \<open>feature\_engineering.py: lap windows\<close>

text \<open>
  A lap boundary table. The three fields of an event are the cells of the columns that
  are called \<open>vehicle_id\<close>, \<open>lap_number\<close> and \<open>timestamp\<close> once
  \<open>_normalize_lap_bounds\<close> has renamed them; timestamps count nanoseconds.
\<close>

record lap_event =
  ev_vehicle_id :: string
  ev_lap_number :: int
  ev_timestamp :: int

record event_table =
  ev_columns :: "string list"
  events :: "lap_event list"

definition rename_column :: "string \<Rightarrow> string \<Rightarrow> string list \<Rightarrow> string list" where
  "rename_column old new cols = map (\<lambda>c. if c = old then new else c) cols"

definition normalize_lap_bounds :: "event_table \<Rightarrow> event_table" where
  "normalize_lap_bounds df =
     (let cols = ev_columns df;
          cols1 = (if ''lap_number'' \<notin> set cols \<and> ''lap'' \<in> set cols
                   then rename_column ''lap'' ''lap_number'' cols else cols);
          cols2 = (if ''timestamp'' \<notin> set cols \<and> ''value'' \<in> set cols
                   then rename_column ''value'' ''timestamp'' cols1 else cols1)
      in df\<lparr>ev_columns := cols2\<rparr>)"

definition ev_key :: "lap_event \<Rightarrow> string \<times> int" where
  "ev_key e = (ev_vehicle_id e, ev_lap_number e)"

definition ev_sort_key :: "lap_event \<Rightarrow> string \<times> int \<times> int" where
  "ev_sort_key e = (ev_vehicle_id e, ev_lap_number e, ev_timestamp e)"

text \<open>
  \<open>drop_duplicates(subset=..., keep="last")\<close> keeps a row when no later row has its
  key; \<open>keep="first"\<close> is the same read from the other end.
\<close>

fun drop_duplicates_last :: "('a \<Rightarrow> 'k) \<Rightarrow> 'a list \<Rightarrow> 'a list" where
  "drop_duplicates_last key [] = []"
| "drop_duplicates_last key (x # xs) =
     (if key x \<in> key ` set xs then drop_duplicates_last key xs
      else x # drop_duplicates_last key xs)"

definition drop_duplicates_first :: "('a \<Rightarrow> 'k) \<Rightarrow> 'a list \<Rightarrow> 'a list" where
  "drop_duplicates_first key xs = rev (drop_duplicates_last key (rev xs))"

record lap_window =
  lw_vehicle_id :: string
  lap_number :: int
  lap_start_time :: int
  lap_end_time :: int
  lap_duration_s :: real

definition lw_key :: "lap_window \<Rightarrow> string \<times> int" where
  "lw_key w = (lw_vehicle_id w, lap_number w)"

text \<open>
  \<open>lap_start.merge(lap_end, on=["vehicle_id", "lap_number"], how="inner",
  validate="one_to_one")\<close>: the rows follow the order of the left keys; the merge raises
  when a key occurs twice on either side. A merged row is a start event paired with the
  end event of the same key; \<open>make_window\<close> reads the renamed timestamp columns and
  adds \<open>lap_duration_s\<close>, the difference in seconds.
\<close>

definition merge_windows :: "lap_event list \<Rightarrow> lap_event list \<Rightarrow> error + (lap_event \<times> lap_event) list" where
  "merge_windows left right =
     (if \<not> distinct (map ev_key left) \<or> \<not> distinct (map ev_key right) then Inl MergeError
      else Inr (concat (map (\<lambda>s. map (\<lambda>e. (s, e)) (filter (\<lambda>e. ev_key e = ev_key s) right)) left)))"

definition make_window :: "lap_event \<times> lap_event \<Rightarrow> lap_window" where
  "make_window p =
     (case p of (s, e) \<Rightarrow>
        \<lparr>lw_vehicle_id = ev_vehicle_id s, lap_number = ev_lap_number s,
         lap_start_time = ev_timestamp s, lap_end_time = ev_timestamp e,
         lap_duration_s = of_int (ev_timestamp e - ev_timestamp s) / 1000000000\<rparr>)"

text \<open>
  \<open>_prepare_lap_windows\<close>, statement by statement. \<open>required_cols\<close> is a Python set,
  enumerated here in one fixed order. After the renames the left frame has the columns
  \<open>lcols\<close>; the right frame loses its two key columns in the merge. The subtraction
  \<open>lap_windows["lap_end_time"] - lap_windows["lap_start_time"]\<close> needs each of the two
  labels to head one column.
\<close>

definition prepare_lap_windows :: "event_table \<Rightarrow> event_table \<Rightarrow> error + lap_window list" where
  "prepare_lap_windows lap_start0 lap_end0 =
     (let lap_start = normalize_lap_bounds lap_start0;
          lap_end = normalize_lap_bounds lap_end0;
          required_cols = [''vehicle_id'', ''lap_number'', ''timestamp'']
      in case ensure_columns (ev_columns lap_start) required_cols ''lap_start'' of
           Inl err \<Rightarrow> Inl err
         | Inr _ \<Rightarrow>
        (case ensure_columns (ev_columns lap_end) required_cols ''lap_end'' of
           Inl err \<Rightarrow> Inl err
         | Inr _ \<Rightarrow>
        (case sort_values_labels (ev_columns lap_start) [''vehicle_id'', ''lap_number'', ''timestamp''] of
           Inl err \<Rightarrow> Inl err
         | Inr _ \<Rightarrow>
        (case sort_values_labels (ev_columns lap_end) [''vehicle_id'', ''lap_number'', ''timestamp''] of
           Inl err \<Rightarrow> Inl err
         | Inr _ \<Rightarrow>
        (let starts = drop_duplicates_first ev_key (sort_key ev_sort_key (events lap_start));
             ends = drop_duplicates_last ev_key (sort_key ev_sort_key (events lap_end));
             lcols = rename_column ''timestamp'' ''lap_start_time'' (ev_columns lap_start);
             rcols = rename_column ''timestamp'' ''lap_end_time'' (ev_columns lap_end)
         in case merge_windows starts ends of
              Inl err \<Rightarrow> Inl err
            | Inr merged \<Rightarrow>
           (case merge_labels (\<lambda>x suffix. x @ suffix) lcols
                   (filter (\<lambda>c. c \<notin> set [''vehicle_id'', ''lap_number'']) rcols) of
              Inl err \<Rightarrow> Inl err
            | Inr (llabels, rlabels) \<Rightarrow>
           (case sort_values_labels (llabels @ rlabels) [''vehicle_id'', ''lap_number''] of
              Inl err \<Rightarrow> Inl err
            | Inr _ \<Rightarrow>
           (case ensure_columns (llabels @ rlabels) LAP_META_COLUMNS ''lap_windows'' of
              Inl err \<Rightarrow> Inl err
            | Inr _ \<Rightarrow>
           (case getitem_labels (llabels @ rlabels) [''lap_end_time'', ''lap_start_time''] of
              Inl err \<Rightarrow> Inl err
            | Inr _ \<Rightarrow> Inr (sort_key lw_key (map make_window merged)))))))))))"

section \<open>feature\_engineering.py: lap assignment\<close>

text \<open>
  A telemetry row: the vehicle, the timestamp in the column \<open>time_col\<close>, and the
  remaining cells, which \<open>assign_laps\<close> carries along without reading them.
\<close>

record 'a telemetry_row =
  t_vehicle_id :: string
  t_time :: int
  t_payload :: 'a

record 'a telemetry_table =
  t_columns :: "string list"
  t_rows :: "'a telemetry_row list"

text \<open>
  The frame of lap windows that \<open>assign_laps\<close> receives. Of a window it reads the
  cell in the column \<open>vehicle_col\<close>, which is the field \<open>lw_vehicle_id\<close>, and the
  cells in \<open>lap_start_time\<close> and \<open>lap_end_time\<close>.
\<close>

record window_table =
  lw_columns :: "string list"
  windows :: "lap_window list"

record 'a lap_tagged =
  a_sample :: "'a telemetry_row"
  a_window :: lap_window

text \<open>
  \<open>pd.merge_asof(..., by=vehicle_col, direction="backward", allow_exact_matches=True)\<close>:
  for a left row, the last row of the right frame, which is sorted by start time, that has
  the same vehicle and a start time not after the left timestamp.
\<close>

definition asof_backward :: "lap_window list \<Rightarrow> 'a telemetry_row \<Rightarrow> lap_window option" where
  "asof_backward ws s =
     (case filter (\<lambda>w. lw_vehicle_id w = t_vehicle_id s \<and> lap_start_time w \<le> t_time s) ws of
        [] \<Rightarrow> None
      | c # cs \<Rightarrow> Some (last (c # cs)))"

text \<open>
  The mask \<open>merged[time_col] <= merged["lap_end_time"]\<close>; a comparison with a null is
  false, so a row without a window goes. The final rename of \<open>lap_number\<close> to \<open>lap\<close>
  changes a column name only: the lap of a kept row is \<open>lap_number (a_window a)\<close>.
\<close>

definition mask_row :: "'a telemetry_row \<Rightarrow> lap_window option \<Rightarrow> 'a lap_tagged list" where
  "mask_row s m =
     (case m of
        None \<Rightarrow> []
      | Some w \<Rightarrow> if t_time s \<le> lap_end_time w then [\<lparr>a_sample = s, a_window = w\<rparr>] else [])"

text \<open>
  \<open>assign_laps\<close>, statement by statement. The vehicle cells are strings and the time
  cells timestamps, so a frame in which \<open>vehicle_col\<close> is also a time column, or in which
  the mask would read \<open>lap_end_time\<close> from the telemetry, is not one the rows describe.
  \<open>merge_asof\<close> drops the right \<open>by\<close> column, and the right \<open>lap_start_time\<close> when the
  left key has the same name.
\<close>

definition assign_laps ::
  "string \<Rightarrow> string \<Rightarrow> 'a telemetry_table \<Rightarrow> window_table \<Rightarrow> error + 'a lap_tagged list" where
  "assign_laps vehicle_col time_col telemetry lap_windows =
     (case ensure_columns (t_columns telemetry) [vehicle_col, time_col] ''telemetry'' of
        Inl err \<Rightarrow> Inl err
      | Inr _ \<Rightarrow>
     (case sort_values_labels (t_columns telemetry) [time_col, vehicle_col] of
        Inl err \<Rightarrow> Inl err
      | Inr _ \<Rightarrow>
     (case sort_values_labels (lw_columns lap_windows) [''lap_start_time'', vehicle_col] of
        Inl err \<Rightarrow> Inl err
      | Inr _ \<Rightarrow>
     (if vehicle_col \<in> set [time_col, ''lap_start_time'', ''lap_end_time''] then Inl Unmodelled
      else
        let tel = sort_key (\<lambda>s. (t_time s, t_vehicle_id s)) (t_rows telemetry);
            lws = sort_key (\<lambda>w. (lap_start_time w, lw_vehicle_id w)) (windows lap_windows);
            right = filter (\<lambda>c. c \<noteq> vehicle_col \<and> (c \<noteq> ''lap_start_time'' \<or> c \<noteq> time_col))
                      (lw_columns lap_windows)
        in case merge_labels (\<lambda>x suffix. x @ suffix) (t_columns telemetry) right of
             Inl err \<Rightarrow> Inl err
           | Inr (llabels, rlabels) \<Rightarrow>
          (case getitem_labels (llabels @ rlabels) [time_col, ''lap_end_time''] of
             Inl err \<Rightarrow> Inl err
           | Inr _ \<Rightarrow>
             if ''lap_end_time'' \<notin> set rlabels then Inl Unmodelled
             else Inr (concat (map (\<lambda>s. mask_row s (asof_backward lws s)) tel)))))))"

section \<open>feature\_engineering.py: signal pivot\<close>

text \<open>
  The pivot turns cells into column labels, so here a frame is generic: a cell is null, a
  string or a number (timestamps are numbers), a label is a cell, and a frame is the
  list of its labelled columns, all of one length; the same label may head several
  columns. \<open>telemetry_with_laps.loc[:, ~telemetry_with_laps.columns.duplicated()]\<close> keeps
  the first column of each label.
\<close>

datatype cell = NaN | Str string | Num real

type_synonym frame = "(cell \<times> cell list) list"

definition drop_duplicated_columns :: "frame \<Rightarrow> frame" where
  "drop_duplicated_columns df = drop_duplicates_first fst df"

definition labels :: "frame \<Rightarrow> cell list" where
  "labels df = map fst df"

definition column_of :: "frame \<Rightarrow> cell \<Rightarrow> cell list" where
  "column_of df l = (case map_of df l of None \<Rightarrow> [] | Some c \<Rightarrow> c)"

definition n_rows :: "frame \<Rightarrow> nat" where
  "n_rows df = (case df of [] \<Rightarrow> 0 | (l, c) # _ \<Rightarrow> length c)"

text \<open>The cells of row \<open>i\<close> under the given labels.\<close>

definition row_cells :: "frame \<Rightarrow> cell list \<Rightarrow> nat \<Rightarrow> cell list" where
  "row_cells df ls i = map (\<lambda>l. column_of df l ! i) ls"

text \<open>
  pandas orders strings by character and numbers by value. A key column that mixes the
  two is not described, so the key only has to order cells of one kind.
\<close>

fun cell_key :: "cell \<Rightarrow> nat \<times> real \<times> string" where
  "cell_key NaN = (0, 0, [])"
| "cell_key (Num x) = (1, x, [])"
| "cell_key (Str s) = (2, 0, s)"

fun is_Str :: "cell \<Rightarrow> bool" where
  "is_Str (Str s) = True"
| "is_Str c = False"

fun is_Num :: "cell \<Rightarrow> bool" where
  "is_Num (Num x) = True"
| "is_Num c = False"

definition one_kind :: "cell list \<Rightarrow> bool" where
  "one_kind cs = (list_all (\<lambda>c. c = NaN \<or> is_Str c) cs \<or> list_all (\<lambda>c. c = NaN \<or> is_Num c) cs)"

text \<open>The numbers among some cells, and the \<open>mean\<close> aggregate: null when there is none.\<close>

definition numbers :: "cell list \<Rightarrow> real list" where
  "numbers cs = concat (map (\<lambda>c. case c of Num x \<Rightarrow> [x] | _ \<Rightarrow> []) cs)"

definition mean_cell :: "cell list \<Rightarrow> cell" where
  "mean_cell cs = (if numbers cs = [] then NaN else Num (sum_list (numbers cs) / of_nat (length (numbers cs))))"

definition add_suffix_cell :: "cell \<Rightarrow> string \<Rightarrow> cell" where
  "add_suffix_cell c suffix = (case c of Str s \<Rightarrow> Str (s @ suffix) | _ \<Rightarrow> c)"

text \<open>
  \<open>pivot_source.pivot_table(index=index_cols, columns=signal_name_col,
  values=signal_value_col, aggfunc="mean")\<close>. \<open>groupby\<close> leaves out a row with a null among
  its three index cells or in its signal name; a group is the rows of one index and one
  signal name, its value the mean of the non-null values, and a group without a value is
  dropped. The rows of the table are the indexes that are left, in order, its columns the
  signal names that are left, in order. The result is the list of the rows, each the
  index cells followed by one cell for each signal name, and the list of the signal names.
\<close>

definition pivot_table ::
  "frame \<Rightarrow> cell list \<Rightarrow> cell \<Rightarrow> cell \<Rightarrow> cell list list \<times> cell list" where
  "pivot_table df index_cols name_col value_col =
     (let kept = filter (\<lambda>i. NaN \<notin> set (row_cells df (index_cols @ [name_col]) i)) [0..<n_rows df];
          group = (\<lambda>k nm. filter (\<lambda>i. row_cells df index_cols i = k \<and> column_of df name_col ! i = nm) kept);
          value = (\<lambda>k nm. mean_cell (map (\<lambda>i. column_of df value_col ! i) (group k nm)));
          valued = filter (\<lambda>i. value (row_cells df index_cols i) (column_of df name_col ! i) \<noteq> NaN) kept;
          index = sort_key (map cell_key) (remdups (map (row_cells df index_cols) valued));
          names = sort_key cell_key (remdups (map (\<lambda>i. column_of df name_col ! i) valued))
      in (map (\<lambda>k. k @ map (value k) names) index, names))"

text \<open>
  The second branch of \<open>pivot_telemetry_signals\<close>, after the test for the long-format
  columns. \<open>reset_index\<close> refuses a signal name that is an index label. The lap
  metadata comes back by a left merge, on the index columns, with the distinct rows of
  index and metadata cells: a pivoted row is followed by the metadata cells of each of
  these rows that has its index. Not described, and answered with \<open>Unmodelled\<close>: a
  frame whose columns differ in length; a selection
  \<open>index_cols + meta_cols + [signal_name_col, signal_value_col]\<close> that repeats a label; a
  string among the values; an index or signal name column that mixes strings and
  numbers; an input that leaves the table without rows.
\<close>

definition pivot_long :: "string \<Rightarrow> string \<Rightarrow> frame \<Rightarrow> error + frame" where
  "pivot_long signal_name_col signal_value_col df =
     (let index_cols = [Str DEFAULT_VEHICLE_COL, Str ''lap'', Str DEFAULT_TIMESTAMP_COL];
          meta_cols = filter (\<lambda>col. col \<in> set (labels df))
                        [Str ''lap_start_time'', Str ''lap_end_time'', Str ''lap_duration_s'']
      in if \<not> list_all (\<lambda>(l, c). length c = n_rows df) df then Inl Unmodelled
         else if \<not> distinct (index_cols @ meta_cols @ [Str signal_name_col, Str signal_value_col])
           then Inl Unmodelled
         else if list_ex is_Str (column_of df (Str signal_value_col)) then Inl Unmodelled
         else if \<not> list_all (\<lambda>l. one_kind (column_of df l)) (index_cols @ [Str signal_name_col])
           then Inl Unmodelled
         else
           case pivot_table df index_cols (Str signal_name_col) (Str signal_value_col) of
             (table, names) \<Rightarrow>
               if table = [] then Inl Unmodelled
               else if list_ex (\<lambda>nm. nm \<in> set index_cols) names then Inl CannotInsert
               else if meta_cols = [] then
                 Inr (map (\<lambda>j. ((index_cols @ names) ! j, map (\<lambda>r. r ! j) table))
                        [0..<length (index_cols @ names)])
               else
                 (case merge_labels add_suffix_cell (index_cols @ names) meta_cols of
                    Inl err \<Rightarrow> Inl err
                  | Inr (llabels, rlabels) \<Rightarrow>
                      let meta = drop_duplicates_first id
                                   (map (row_cells df (index_cols @ meta_cols)) [0..<n_rows df]);
                          merged = concat (map (\<lambda>r.
                                     map (\<lambda>m. r @ drop (length index_cols) m)
                                       (filter (\<lambda>m. take (length index_cols) m = take (length index_cols) r) meta))
                                     table)
                      in Inr (map (\<lambda>j. ((llabels @ rlabels) ! j, map (\<lambda>r. r ! j) merged))
                                [0..<length (llabels @ rlabels)])))"

definition pivot_telemetry_signals :: "string \<Rightarrow> string \<Rightarrow> frame \<Rightarrow> error + frame" where
  "pivot_telemetry_signals signal_name_col signal_value_col telemetry_with_laps0 =
     (let telemetry_with_laps = drop_duplicated_columns telemetry_with_laps0;
          required_cols = [Str DEFAULT_VEHICLE_COL, Str ''lap'', Str DEFAULT_TIMESTAMP_COL,
                           Str signal_name_col, Str signal_value_col]
      in if \<not> set required_cols \<subseteq> set (labels telemetry_with_laps) then Inr telemetry_with_laps
         else pivot_long signal_name_col signal_value_col telemetry_with_laps)"

section \<open>feature\_engineering.py: per-lap aggregation\<close>

text \<open>
  A row of lap-tagged wide telemetry. The two group keys may be null; \<open>w_cells\<close> holds
  the signal and lap metadata cells.
\<close>

record wide_row =
  w_vehicle_id :: "string option"
  w_lap :: "int option"
  w_cells :: "string \<rightharpoonup> real"




text \<open>The group key of a row; pandas' \<open>groupby\<close> leaves out the rows whose key has a null.\<close>

definition w_key :: "wide_row \<Rightarrow> (string \<times> int) option" where
  "w_key r =
     (case (w_vehicle_id r, w_lap r) of (Some v, Some l) \<Rightarrow> Some (v, l) | _ \<Rightarrow> None)"

definition group_keys :: "wide_row list \<Rightarrow> (string \<times> int) list" where
  "group_keys rs = sort (remdups (dropna (map w_key rs)))"






section \<open>Auxiliary notions for the proofs\<close>

text \<open>
  The value \<open>final_karma\<close> of one pass through the body of the inner loop, as a function
  of the instant score and of what \<open>smoothed_scores.get(key)\<close> holds.
\<close>

definition karma_of :: "real \<Rightarrow> real \<Rightarrow> int \<Rightarrow> real \<Rightarrow> real option \<Rightarrow> real" where
  "karma_of smoothing wear_rate relative_lap instant prev_opt =
     min 1 (smoothing * (case prev_opt of None \<Rightarrow> instant | Some p \<Rightarrow> p)
              + (1 - smoothing) * instant
              + min (1/2) (wear_rate * of_int relative_lap) * (1 + instant * (1/2)))"

text \<open>Invariants of the two loops of \<open>compute_stream\<close>.\<close>

definition sm_bounded :: "smoothed_scores \<Rightarrow> bool" where
  "sm_bounded sm \<longleftrightarrow> (\<forall>k p. sm k = Some p \<longrightarrow> 0 \<le> p \<and> p \<le> 1)"

definition starts_ok :: "vehicle_start_laps \<Rightarrow> lap_row list \<Rightarrow> bool" where
  "starts_ok starts rs \<longleftrightarrow>
     (\<forall>r \<in> set rs. \<forall>l0. starts (vehicle_id r) = Some l0 \<longrightarrow> l0 \<le> lap r)"

definition wear :: "real \<Rightarrow> int \<Rightarrow> real" where
  "wear wear_rate relative_lap = min (1/2) (wear_rate * of_int relative_lap)"

definition track_inv ::
  "real \<Rightarrow> real \<Rightarrow> smoothed_scores \<Rightarrow> vehicle_start_laps \<Rightarrow> lap_row list \<Rightarrow> string \<Rightarrow> string \<Rightarrow> bool" where
  "track_inv s w sm starts rs v c \<longleftrightarrow>
     (\<forall>p. sm (v, c) = Some p \<longrightarrow>
        (\<exists>l0. starts v = Some l0 \<and>
           (\<forall>r \<in> set rs. vehicle_id r = v \<longrightarrow> p \<le> min 1 (s * p + wear w (lap r - l0 + 1)))))"

definition weights_nonneg :: "ComponentSpec \<Rightarrow> bool" where
  "weights_nonneg spec \<longleftrightarrow> (\<forall>(f, w) \<in> set (feature_weights spec). 0 \<le> w)"

text \<open>
  The raw columns under which \<open>_normalize_lap_bounds\<close> followed by \<open>ensure_columns\<close>
  accepts a lap boundary table, and names for the intermediate frames of
  \<open>_prepare_lap_windows\<close>.
\<close>

definition has_lap_columns :: "event_table \<Rightarrow> bool" where
  "has_lap_columns df \<longleftrightarrow>
     ''vehicle_id'' \<in> set (ev_columns df)
     \<and> (''lap_number'' \<in> set (ev_columns df) \<or> ''lap'' \<in> set (ev_columns df))
     \<and> (''timestamp'' \<in> set (ev_columns df) \<or> ''value'' \<in> set (ev_columns df))"

definition dedup_starts :: "event_table \<Rightarrow> lap_event list" where
  "dedup_starts df = drop_duplicates_first ev_key (sort_key ev_sort_key (events df))"

definition dedup_ends :: "event_table \<Rightarrow> lap_event list" where
  "dedup_ends df = drop_duplicates_last ev_key (sort_key ev_sort_key (events df))"

definition joined :: "lap_event list \<Rightarrow> lap_event list \<Rightarrow> (lap_event \<times> lap_event) list" where
  "joined left right =
     concat (map (\<lambda>s. map (\<lambda>e. (s, e)) (filter (\<lambda>e. ev_key e = ev_key s) right)) left)"


section \<open>Example inputs\<close>

definition df1 :: dataframe where
  "df1 = \<lparr>columns = [''vehicle_id'', ''lap'', ''speed_mean'', ''nmot_mean'', ''gear_mean'',
                     ''accx_can_std'', ''pbrake_f_max'', ''pbrake_r_max'', ''Steering_Angle_std''],
          rows = [\<lparr>vehicle_id = ''V1'', lap = 2, cells = [''speed_mean'' \<mapsto> 120]\<rparr>,
                  \<lparr>vehicle_id = ''V1'', lap = 1, cells = [''speed_mean'' \<mapsto> 80, ''nmot_mean'' \<mapsto> 0]\<rparr>]\<rparr>"

definition out1 :: score_frame where
  "out1 = \<lparr>out_columns = [''vehicle_id'', ''lap'', ''component'', ''instant_score'', ''karma_score''],
        records =
          [\<lparr>rec_vehicle_id = ''V1'', rec_lap = 1, component = ''engine'',
              instant_score = 0, karma_score = 1 / 500\<rparr>,
           \<lparr>rec_vehicle_id = ''V1'', rec_lap = 1, component = ''gearbox'',
              instant_score = 0, karma_score = 1 / 500\<rparr>,
           \<lparr>rec_vehicle_id = ''V1'', rec_lap = 1, component = ''brakes'',
              instant_score = 0, karma_score = 1 / 500\<rparr>,
           \<lparr>rec_vehicle_id = ''V1'', rec_lap = 1, component = ''tires'',
              instant_score = 0, karma_score = 1 / 500\<rparr>,
           \<lparr>rec_vehicle_id = ''V1'', rec_lap = 2, component = ''engine'',
              instant_score = 2 / 5, karma_score = 83 / 500\<rparr>,
           \<lparr>rec_vehicle_id = ''V1'', rec_lap = 2, component = ''gearbox'',
              instant_score = 0, karma_score = 13 / 2500\<rparr>,
           \<lparr>rec_vehicle_id = ''V1'', rec_lap = 2, component = ''brakes'',
              instant_score = 0, karma_score = 13 / 2500\<rparr>,
           \<lparr>rec_vehicle_id = ''V1'', rec_lap = 2, component = ''tires'',
              instant_score = 3 / 10, karma_score = 629 / 5000\<rparr>]\<rparr>"

definition df_no_features :: dataframe where
  "df_no_features = \<lparr>columns = [''vehicle_id'', ''lap''], rows = []\<rparr>"

definition df_empty_frame :: dataframe where
  "df_empty_frame = \<lparr>columns = [], rows = []\<rparr>"

definition df_partial :: dataframe where
  "df_partial = \<lparr>columns = [''vehicle_id'', ''lap'', ''speed_mean''],
                 rows = [\<lparr>vehicle_id = ''V1'', lap = 1, cells = [''speed_mean'' \<mapsto> 100]\<rparr>]\<rparr>"

definition reversed_start :: event_table where
  "reversed_start = \<lparr>ev_columns = [''vehicle_id'', ''lap_number'', ''timestamp''],
       events = [\<lparr>ev_vehicle_id = ''V1'', ev_lap_number = 1, ev_timestamp = 10\<rparr>]\<rparr>"

definition reversed_end :: event_table where
  "reversed_end = \<lparr>ev_columns = [''vehicle_id'', ''lap_number'', ''timestamp''],
       events = [\<lparr>ev_vehicle_id = ''V1'', ev_lap_number = 1, ev_timestamp = 5\<rparr>]\<rparr>"

definition reversed_window :: lap_window where
  "reversed_window = \<lparr>lw_vehicle_id = ''V1'', lap_number = 1, lap_start_time = 10, lap_end_time = 5,
       lap_duration_s = - 5 / 1000000000\<rparr>"

definition clash_start :: event_table where
  "clash_start = \<lparr>ev_columns = [''vehicle_id'', ''lap_number'', ''timestamp'', ''lap_end_time''],
       events = [\<lparr>ev_vehicle_id = ''V1'', ev_lap_number = 1, ev_timestamp = 10\<rparr>]\<rparr>"

definition plain_end :: event_table where
  "plain_end = \<lparr>ev_columns = [''vehicle_id'', ''lap_number'', ''timestamp''],
       events = [\<lparr>ev_vehicle_id = ''V1'', ev_lap_number = 1, ev_timestamp = 20\<rparr>]\<rparr>"

definition scenario_start :: event_table where
  "scenario_start = \<lparr>ev_columns = [''vehicle_id'', ''lap'', ''value''],
       events = [\<lparr>ev_vehicle_id = ''V1'', ev_lap_number = 3, ev_timestamp = 12\<rparr>,
                 \<lparr>ev_vehicle_id = ''V1'', ev_lap_number = 4, ev_timestamp = 20\<rparr>,
                 \<lparr>ev_vehicle_id = ''V1'', ev_lap_number = 3, ev_timestamp = 10\<rparr>,
                 \<lparr>ev_vehicle_id = ''V2'', ev_lap_number = 1, ev_timestamp = 11\<rparr>]\<rparr>"

definition scenario_end :: event_table where
  "scenario_end = \<lparr>ev_columns = [''vehicle_id'', ''lap_number'', ''timestamp''],
       events = [\<lparr>ev_vehicle_id = ''V1'', ev_lap_number = 4, ev_timestamp = 31\<rparr>,
                 \<lparr>ev_vehicle_id = ''V1'', ev_lap_number = 3, ev_timestamp = 20\<rparr>,
                 \<lparr>ev_vehicle_id = ''V1'', ev_lap_number = 3, ev_timestamp = 19\<rparr>,
                 \<lparr>ev_vehicle_id = ''V3'', ev_lap_number = 1, ev_timestamp = 15\<rparr>]\<rparr>"

definition scenario_windows :: "lap_window list" where
  "scenario_windows =
     [\<lparr>lw_vehicle_id = ''V1'', lap_number = 3, lap_start_time = 10, lap_end_time = 20,
        lap_duration_s = 10 / 1000000000\<rparr>,
      \<lparr>lw_vehicle_id = ''V1'', lap_number = 4, lap_start_time = 20, lap_end_time = 31,
        lap_duration_s = 11 / 1000000000\<rparr>]"

definition tel0 :: "unit telemetry_table" where
  "tel0 = \<lparr>t_columns = [''vehicle_id'', ''meta_time'', ''speed''],
            t_rows = [\<lparr>t_vehicle_id = ''V1'', t_time = 25, t_payload = ()\<rparr>,
                      \<lparr>t_vehicle_id = ''V1'', t_time = 5, t_payload = ()\<rparr>,
                      \<lparr>t_vehicle_id = ''V1'', t_time = 20, t_payload = ()\<rparr>,
                      \<lparr>t_vehicle_id = ''V1'', t_time = 40, t_payload = ()\<rparr>,
                      \<lparr>t_vehicle_id = ''V2'', t_time = 15, t_payload = ()\<rparr>]\<rparr>"

definition windows0 :: window_table where
  "windows0 =
     \<lparr>lw_columns = [''vehicle_id'', ''lap_number'', ''lap_start_time'', ''lap_end_time'',
                    ''lap_duration_s''],
      windows =
        [\<lparr>lw_vehicle_id = ''V1'', lap_number = 3, lap_start_time = 10, lap_end_time = 20,
           lap_duration_s = 10 / 1000000000\<rparr>,
         \<lparr>lw_vehicle_id = ''V1'', lap_number = 4, lap_start_time = 20, lap_end_time = 31,
           lap_duration_s = 11 / 1000000000\<rparr>]\<rparr>"

definition tagged0 :: "unit lap_tagged list" where
  "tagged0 =
     [\<lparr>a_sample = \<lparr>t_vehicle_id = ''V1'', t_time = 20, t_payload = ()\<rparr>, a_window = windows windows0 ! 1\<rparr>,
      \<lparr>a_sample = \<lparr>t_vehicle_id = ''V1'', t_time = 25, t_payload = ()\<rparr>, a_window = windows windows0 ! 1\<rparr>]"

definition wide_dup :: frame where
  "wide_dup = [(Str ''vehicle_id'', [Str ''V1'', Str ''V1'']), (Str ''speed'', [Num 100, Num 110]),
               (Str ''speed'', [Num 7, Num 8])]"

definition wide0 :: frame where
  "wide0 = [(Str ''vehicle_id'', [Str ''V1'', Str ''V1'']), (Str ''lap'', [Num 1, Num 2]),
            (Str ''speed'', [Num 100, Num 110])]"

definition long0 :: frame where
  "long0 = [(Str ''vehicle_id'', [Str ''V1'', Str ''V1'', Str ''V1'', Str ''V1'']),
            (Str ''lap'', [Num 1, Num 1, Num 1, Num 2]),
            (Str ''meta_time'', [Num 10, Num 10, Num 10, Num 30]),
            (Str ''telemetry_name'', [Str ''speed'', Str ''speed'', Str ''gear'', Str ''speed'']),
            (Str ''telemetry_value'', [Num 100, Num 110, Num 3, Num 90]),
            (Str ''lap_start_time'', [Num 5, Num 5, Num 5, Num 25])]"

definition pivoted0 :: frame where
  "pivoted0 = [(Str ''vehicle_id'', [Str ''V1'', Str ''V1'']),
               (Str ''lap'', [Num 1, Num 2]),
               (Str ''meta_time'', [Num 10, Num 30]),
               (Str ''gear'', [Num 3, NaN]),
               (Str ''speed'', [Num 105, Num 90]),
               (Str ''lap_start_time'', [Num 5, Num 25])]"

definition long_twice :: frame where
  "long_twice = [(Str ''vehicle_id'', [Str ''V1'', Str ''V1'']),
                 (Str ''lap'', [Num 1, Num 1]),
                 (Str ''meta_time'', [Num 10, Num 10]),
                 (Str ''telemetry_name'', [Str ''telemetry_name'', Str ''telemetry_value'']),
                 (Str ''telemetry_value'', [Num 5, Num 7])]"

definition pivoted_once :: frame where
  "pivoted_once = [(Str ''vehicle_id'', [Str ''V1'']), (Str ''lap'', [Num 1]), (Str ''meta_time'', [Num 10]),
                   (Str ''telemetry_name'', [Num 5]), (Str ''telemetry_value'', [Num 7])]"

definition pivoted_twice :: frame where
  "pivoted_twice = [(Str ''vehicle_id'', [Str ''V1'']), (Str ''lap'', [Num 1]), (Str ''meta_time'', [Num 10]),
                    (Num 5, [Num 7])]"


section \<open>Shared lemmas\<close>

lemma ensure_columns_ok:
  "set required \<subseteq> set cols \<Longrightarrow> ensure_columns cols required nm = Inr ()"
  by (auto simp: ensure_columns_def Let_def filter_empty_conv)

lemma set_drop_duplicates_last: "set (drop_duplicates_last key xs) \<subseteq> set xs"
  by (induction xs) auto

lemma keys_drop_duplicates_last: "key ` set (drop_duplicates_last key xs) = key ` set xs"
  by (induction xs) auto

lemma distinct_drop_duplicates_last: "distinct (map key (drop_duplicates_last key xs))"
proof (induction xs)
  case Nil
  then show ?case by simp
next
  case (Cons x xs)
  have "key x \<notin> key ` set xs \<Longrightarrow> key x \<notin> key ` set (drop_duplicates_last key xs)"
    by (simp add: keys_drop_duplicates_last)
  with Cons show ?case by auto
qed

lemma drop_duplicates_last_split:
  "x \<in> set (drop_duplicates_last key xs)
     \<Longrightarrow> \<exists>as bs. xs = as @ x # bs \<and> key x \<notin> key ` set bs"
proof (induction xs)
  case Nil
  then show ?case by simp
next
  case (Cons y xs)
  show ?case
  proof (cases "x \<in> set (drop_duplicates_last key xs)")
    case True
    from Cons.IH[OF this] obtain as bs where "xs = as @ x # bs" "key x \<notin> key ` set bs"
      by blast
    then have "y # xs = (y # as) @ x # bs \<and> key x \<notin> key ` set bs" by simp
    then show ?thesis by blast
  next
    case False
    with Cons.prems have "x = y" "key y \<notin> key ` set xs"
      by (auto split: if_splits)
    then have "y # xs = [] @ x # xs \<and> key x \<notin> key ` set xs" by simp
    then show ?thesis by blast
  qed
qed

lemma drop_duplicates_last_id: "distinct (map key xs) \<Longrightarrow> drop_duplicates_last key xs = xs"
  by (induction xs) auto

lemma set_drop_duplicates_first: "set (drop_duplicates_first key xs) \<subseteq> set xs"
  using set_drop_duplicates_last[of key "rev xs"] by (simp add: drop_duplicates_first_def)

lemma keys_drop_duplicates_first: "key ` set (drop_duplicates_first key xs) = key ` set xs"
  using keys_drop_duplicates_last[of key "rev xs"] by (simp add: drop_duplicates_first_def)

lemma distinct_drop_duplicates_first: "distinct (map key (drop_duplicates_first key xs))"
  using distinct_drop_duplicates_last[of key "rev xs"]
  by (simp add: drop_duplicates_first_def rev_map[symmetric])

lemma drop_duplicates_first_split:
  assumes "x \<in> set (drop_duplicates_first key xs)"
  shows "\<exists>as bs. xs = as @ x # bs \<and> key x \<notin> key ` set as"
proof -
  from assms have "x \<in> set (drop_duplicates_last key (rev xs))"
    by (simp add: drop_duplicates_first_def)
  from drop_duplicates_last_split[OF this] obtain as bs where
    r: "rev xs = as @ x # bs" "key x \<notin> key ` set bs" by blast
  from r(1) have "xs = rev bs @ x # rev as"
    by (metis rev_rev_ident rev_append rev.simps(2) append_Cons append_Nil append_assoc)
  with r(2) show ?thesis
    by (intro exI[of _ "rev bs"] exI[of _ "rev as"]) simp
qed

lemma drop_duplicates_first_id: "distinct (map key xs) \<Longrightarrow> drop_duplicates_first key xs = xs"
  by (simp add: drop_duplicates_first_def drop_duplicates_last_id rev_map[symmetric])

lemma count_list_distinct: "distinct xs \<Longrightarrow> \<not> Suc 0 < count_list xs k"
  by (induction xs) (auto simp: count_list_0_iff)

lemma sort_values_labels_ok:
  "distinct cols \<Longrightarrow> set ks \<subseteq> set cols \<Longrightarrow> sort_values_labels cols ks = Inr ()"
  by (induction ks) (simp_all add: count_list_distinct)

lemma getitem_labels_ok:
  "distinct cols \<Longrightarrow> set ks \<subseteq> set cols \<Longrightarrow> getitem_labels cols ks = Inr ()"
  by (induction ks) (simp_all add: count_list_distinct)

lemma suffix_caused_dups_same: "\<not> suffix_caused_dups xs xs"
  by (auto simp: suffix_caused_dups_def list_ex_iff set_zip)

lemma merge_labels_disjoint:
  assumes "set left \<inter> set right = {}"
  shows "merge_labels add_suffix left right = Inr (left, right)"
proof -
  have "map (\<lambda>x. if x \<in> set right then add_suffix x ''_x'' else x) left = left"
    using assms by (intro map_idI) auto
  moreover have "map (\<lambda>x. if x \<in> set left then add_suffix x ''_y'' else x) right = right"
    using assms by (intro map_idI) auto
  ultimately show ?thesis
    by (simp add: merge_labels_def suffix_caused_dups_same)
qed

section \<open>The risk engine: instant score\<close>

lemma score_loop_closed:
  "score_loop row st fw (a, b) =
     (a + (\<Sum>(f, w) \<leftarrow> fw.
             w * normalize_val (cells row f) (fst (stats_get st f)) (snd (stats_get st f))),
      b + (\<Sum>(f, w) \<leftarrow> fw. w))"
  by (induction fw arbitrary: a b) (auto simp: case_prod_beta Let_def)

lemma normalize_val_None [simp]: "normalize_val None lo hi = 0"
  by (simp add: normalize_val_def)

lemma sum_nonnull_only:
  "(\<Sum>(f, w) \<leftarrow> fw. w * normalize_val (cells row f) (lo f) (hi f)) =
   (\<Sum>(f, w) \<leftarrow> filter (\<lambda>(f, w). cells row f \<noteq> None) fw.
        w * normalize_val (cells row f) (lo f) (hi f))"
  by (induction fw) auto

text \<open>
  Claim C1, as the code has it. The instant score divides by the sum of \<^emph>\<open>all\<close>
  configured weights; a null feature normalises to 0, so it adds nothing to the
  numerator, but its weight stays in the denominator. The score is 0 when the weights sum
  to 0, and 0 when every configured feature of the row is null.
\<close>

theorem component_score_weighted_average:
  "component_score row st spec =
     (if (\<Sum>(f, w) \<leftarrow> feature_weights spec. w) = 0 then 0
      else (\<Sum>(f, w) \<leftarrow> filter (\<lambda>(f, w). cells row f \<noteq> None) (feature_weights spec).
               w * normalize_val (cells row f) (fst (stats_get st f)) (snd (stats_get st f)))
           / (\<Sum>(f, w) \<leftarrow> feature_weights spec. w))
   \<and> ((\<forall>(f, w) \<in> set (feature_weights spec). cells row f = None)
        \<longrightarrow> component_score row st spec = 0)"
proof -
  let ?n = "\<lambda>f. normalize_val (cells row f) (fst (stats_get st f)) (snd (stats_get st f))"
  have cs: "component_score row st spec =
      (if (\<Sum>(f, w) \<leftarrow> feature_weights spec. w) = 0 then 0
       else (\<Sum>(f, w) \<leftarrow> feature_weights spec. w * ?n f) / (\<Sum>(f, w) \<leftarrow> feature_weights spec. w))"
    by (simp add: component_score_def score_loop_closed)
  have nn: "(\<Sum>(f, w) \<leftarrow> feature_weights spec. w * ?n f) =
      (\<Sum>(f, w) \<leftarrow> filter (\<lambda>(f, w). cells row f \<noteq> None) (feature_weights spec). w * ?n f)"
    by (rule sum_nonnull_only)
  have z: "(\<forall>(f, w) \<in> set (feature_weights spec). cells row f = None)
      \<Longrightarrow> filter (\<lambda>(f, w). cells row f \<noteq> None) (feature_weights spec) = []"
    by (auto simp: filter_empty_conv)
  show ?thesis
    using cs nn z by auto
qed

text \<open>
  Claim C1, witness: the second lap row of \<open>df1\<close> has no gearbox feature, and its
  gearbox score is 0.
\<close>

theorem component_score_weighted_average_witness:
  "map (\<lambda>(f, w). cells (rows df1 ! 0) f) (feature_weights (COMPONENT_SPECS ! 1)) = [None, None]
   \<and> component_score (rows df1 ! 0) (column_stats df1 required_cols) (COMPONENT_SPECS ! 1) = 0"
proof -
  have l: "map (\<lambda>(f, w). cells (rows df1 ! 0) f) (feature_weights (COMPONENT_SPECS ! 1)) = [None, None]"
    by (simp add: df1_def COMPONENT_SPECS_def)
  have n: "\<forall>(f, w) \<in> set (feature_weights (COMPONENT_SPECS ! 1)). cells (rows df1 ! 0) f = None"
    by (simp add: df1_def COMPONENT_SPECS_def)
  from component_score_weighted_average
         [of "rows df1 ! 0" "column_stats df1 required_cols" "COMPONENT_SPECS ! 1"] n
  have "component_score (rows df1 ! 0) (column_stats df1 required_cols) (COMPONENT_SPECS ! 1) = 0"
    by blast
  with l show ?thesis by (rule conjI)
qed

text \<open>
  Claim C1, counterexample to the claim as stated. In the row of \<open>df1\<close> for lap 2 the
  feature \<open>nmot_mean\<close> is null and \<open>speed_mean\<close> is at its maximum. The weighted
  average over the non-null features alone is 1; the code returns 0.4 / (0.4 + 0.6).
\<close>

theorem component_score_null_weight_counterexample:
  "cells (rows df1 ! 0) ''nmot_mean'' = None
   \<and> component_score (rows df1 ! 0) (column_stats df1 required_cols) (COMPONENT_SPECS ! 0) = 2/5
   \<and> spec_instant_score (rows df1 ! 0) (column_stats df1 required_cols) (COMPONENT_SPECS ! 0) = 1"
  by code_simp

section \<open>The risk engine: validation and the empty frame\<close>

lemma set_required_cols:
  "set required_cols = (\<Union>spec \<in> set COMPONENT_SPECS. fst ` set (feature_weights spec))"
  by (simp add: required_cols_def)

text \<open>
  Claim C10: on an empty frame \<open>compute_stream\<close> returns the empty score frame with
  the five score columns and raises nothing, whatever columns the frame has.
\<close>

theorem compute_stream_empty:
  "df_empty df \<Longrightarrow>
     compute_stream smoothing wear_rate df =
       Inr \<lparr>out_columns = [''vehicle_id'', ''lap'', ''component'', ''instant_score'', ''karma_score''],
            records = []\<rparr>"
  by (simp add: compute_stream_def score_columns_def)

text \<open>
  Claim C10, witness: a frame without rows and without any feature column.
\<close>

theorem compute_stream_empty_witness:
  "df_empty df_no_features \<and> set required_cols \<inter> set (columns df_no_features) = {} \<and>
   compute_stream (3/5) (1/500) df_no_features =
       Inr \<lparr>out_columns = [''vehicle_id'', ''lap'', ''component'', ''instant_score'', ''karma_score''],
            records = []\<rparr>"
proof -
  have e: "df_empty df_no_features"
    by (simp add: df_empty_def df_no_features_def)
  have d: "set required_cols \<inter> set (columns df_no_features) = {}"
    by (simp add: set_required_cols COMPONENT_SPECS_def df_no_features_def)
  from e d compute_stream_empty[OF e, of "3/5" "1/500"] show ?thesis by simp
qed

text \<open>
  Claim C8, as the code has it: for a non-empty frame, the missing-column error is raised
  exactly when a configured feature is absent from the columns, and it lists exactly the
  absent features. The configured features are those of all component specs.
\<close>

theorem compute_stream_missing_features:
  assumes "\<not> df_empty df"
  shows "set required_cols = (\<Union>spec \<in> set COMPONENT_SPECS. fst ` set (feature_weights spec))
       \<and> (set required_cols - set (columns df) \<noteq> {} \<longrightarrow>
            (\<exists>msg missing. compute_stream smoothing wear_rate df = Inl (MissingColumns msg missing)
                \<and> set missing = set required_cols - set (columns df)))
       \<and> (set required_cols \<subseteq> set (columns df) \<longrightarrow>
            (\<forall>msg missing. compute_stream smoothing wear_rate df \<noteq> Inl (MissingColumns msg missing)))"
proof -
  let ?missing = "filter (\<lambda>col. col \<notin> set (columns df)) required_cols"
  have m: "set ?missing = set required_cols - set (columns df)"
    by auto
  have rest: "(set required_cols - set (columns df) \<noteq> {} \<longrightarrow>
            (\<exists>msg missing. compute_stream smoothing wear_rate df = Inl (MissingColumns msg missing)
                \<and> set missing = set required_cols - set (columns df)))
       \<and> (set required_cols \<subseteq> set (columns df) \<longrightarrow>
            (\<forall>msg missing. compute_stream smoothing wear_rate df \<noteq> Inl (MissingColumns msg missing)))"
  proof (cases "?missing = []")
    case True
    then have "set required_cols \<subseteq> set (columns df)"
      using m by auto
    with assms True show ?thesis
      by (auto simp: compute_stream_def Let_def)
  next
    case False
    then have "set required_cols - set (columns df) \<noteq> {}"
      using m by (metis set_empty)
    with assms False m show ?thesis
      by (auto simp: compute_stream_def Let_def)
  qed
  with set_required_cols show ?thesis
    by (rule conjI)
qed

text \<open>
  Claim C8, witness: \<open>df_partial\<close> has one row and only the feature \<open>speed_mean\<close>,
  and the error lists the six other features; \<open>df1\<close> has every feature column and
  raises no such error.
\<close>

theorem compute_stream_missing_features_witness:
  "\<not> df_empty df_partial \<and>
   (\<exists>msg missing. compute_stream (3/5) (1/500) df_partial = Inl (MissingColumns msg missing)
       \<and> set missing = {''nmot_mean'', ''gear_mean'', ''accx_can_std'', ''pbrake_f_max'',
                          ''pbrake_r_max'', ''Steering_Angle_std''})
   \<and> \<not> df_empty df1 \<and> set required_cols \<subseteq> set (columns df1)
   \<and> (\<forall>msg missing. compute_stream (3/5) (1/500) df1 \<noteq> Inl (MissingColumns msg missing))"
proof -
  have ne: "\<not> df_empty df_partial"
    by (simp add: df_empty_def df_partial_def)
  have d: "set required_cols - set (columns df_partial) =
        {''nmot_mean'', ''gear_mean'', ''accx_can_std'', ''pbrake_f_max'',
         ''pbrake_r_max'', ''Steering_Angle_std''}"
    by (auto simp: set_required_cols COMPONENT_SPECS_def df_partial_def)
  have ne1: "\<not> df_empty df1"
    by (simp add: df_empty_def df1_def)
  have s1: "set required_cols \<subseteq> set (columns df1)"
    by (simp add: set_required_cols COMPONENT_SPECS_def df1_def)
  note t1 = compute_stream_missing_features[OF ne, of "3/5" "1/500", THEN conjunct2, THEN conjunct1]
  note t2 = compute_stream_missing_features[OF ne1, of "3/5" "1/500", THEN conjunct2, THEN conjunct2]
  have "set required_cols - set (columns df_partial) \<noteq> {}"
    unfolding d by simp
  with t1 have e: "\<exists>msg missing.
       compute_stream (3/5) (1/500) df_partial = Inl (MissingColumns msg missing)
       \<and> set missing = set required_cols - set (columns df_partial)"
    by (rule mp)
  from t2 s1 have f: "\<forall>msg missing. compute_stream (3/5) (1/500) df1 \<noteq> Inl (MissingColumns msg missing)"
    by (rule mp)
  from ne e[unfolded d] ne1 s1 f show ?thesis
    by (intro conjI)
qed

text \<open>
  Claim C8, counterexample to the claim as stated: the frame without rows and columns
  lacks \<open>speed_mean\<close> and yet \<open>compute_stream\<close> returns normally.
\<close>

theorem compute_stream_empty_skips_validation:
  "''speed_mean'' \<in> set required_cols \<and> ''speed_mean'' \<notin> set (columns df_empty_frame)
   \<and> compute_stream (3/5) (1/500) df_empty_frame
       = Inr \<lparr>out_columns = [''vehicle_id'', ''lap'', ''component'', ''instant_score'', ''karma_score''],
              records = []\<rparr>"
  by (simp add: set_required_cols COMPONENT_SPECS_def df_empty_frame_def compute_stream_def
        df_empty_def score_columns_def)

section \<open>The risk engine: bounds\<close>

lemma normalize_val_range: "0 \<le> normalize_val v lo hi \<and> normalize_val v lo hi \<le> 1"
  by (simp add: normalize_val_def split: option.splits)

lemma weighted_sum_bounds:
  assumes "\<forall>(f, w) \<in> set fw. 0 \<le> (w::real)" and "\<forall>f. 0 \<le> n f \<and> n f \<le> (1::real)"
  shows "0 \<le> (\<Sum>(f, w) \<leftarrow> fw. w * n f) \<and> (\<Sum>(f, w) \<leftarrow> fw. w * n f) \<le> (\<Sum>(f, w) \<leftarrow> fw. w)
         \<and> 0 \<le> (\<Sum>(f, w) \<leftarrow> fw. w)"
  using assms(1)
proof (induction fw)
  case Nil
  then show ?case by simp
next
  case (Cons a fw)
  obtain f w where a: "a = (f, w)" by (cases a)
  with Cons.prems have w: "0 \<le> w" by simp
  from assms(2) have n: "0 \<le> n f" "n f \<le> 1" by auto
  have "0 \<le> w * n f" using w n by simp
  moreover have "w * n f \<le> w" using w n by (simp add: mult_left_le)
  ultimately show ?case using Cons a by auto
qed

lemma component_score_range:
  assumes "weights_nonneg spec"
  shows "0 \<le> component_score row st spec \<and> component_score row st spec \<le> 1"
proof -
  let ?n = "\<lambda>f. normalize_val (cells row f) (fst (stats_get st f)) (snd (stats_get st f))"
  let ?num = "\<Sum>(f, w) \<leftarrow> feature_weights spec. w * ?n f"
  let ?den = "\<Sum>(f, w) \<leftarrow> feature_weights spec. w"
  have b: "0 \<le> ?num \<and> ?num \<le> ?den \<and> 0 \<le> ?den"
    by (rule weighted_sum_bounds) (use assms in \<open>auto simp: weights_nonneg_def normalize_val_range\<close>)
  have cs: "component_score row st spec = (if ?den = 0 then 0 else ?num / ?den)"
    by (simp add: component_score_def score_loop_closed)
  show ?thesis
  proof (cases "?den = 0")
    case True
    with cs show ?thesis by simp
  next
    case False
    with b have "0 < ?den" by simp
    with b cs False show ?thesis by (simp add: divide_le_eq_1)
  qed
qed

lemma karma_of_range:
  assumes "0 \<le> s" "s \<le> 1" "0 \<le> w" "0 \<le> rel" "0 \<le> i" "i \<le> 1"
    and "\<And>p. prev = Some p \<Longrightarrow> 0 \<le> p \<and> p \<le> 1"
  shows "0 \<le> karma_of s w rel i prev \<and> karma_of s w rel i prev \<le> 1"
proof -
  define p where "p = (case prev of None \<Rightarrow> i | Some p \<Rightarrow> p)"
  have p: "0 \<le> p" using assms by (auto simp: p_def split: option.splits)
  have "0 \<le> s * p" using assms p by simp
  moreover have "0 \<le> (1 - s) * i" using assms by simp
  moreover have "0 \<le> min (1/2) (w * of_int rel) * (1 + i * (1/2))"
    using assms by simp
  ultimately show ?thesis
    by (simp add: karma_of_def p_def[symmetric])
qed

lemma spec_loop_Cons:
  "spec_loop s w st row rel (spec # specs) sm =
     (let k = karma_of s w rel (component_score row st spec) (sm (vehicle_id row, name spec));
          res = spec_loop s w st row rel specs (sm((vehicle_id row, name spec) \<mapsto> k))
      in (fst res,
          \<lparr>rec_vehicle_id = vehicle_id row, rec_lap = lap row, component = name spec,
           instant_score = component_score row st spec, karma_score = k\<rparr> # snd res))"
  by (simp add: Let_def karma_of_def split: prod.splits)

declare spec_loop.simps(2) [simp del]

lemma spec_loop_bounded:
  assumes "0 \<le> s" "s \<le> 1" "0 \<le> w" "0 \<le> rel"
    and "\<forall>spec \<in> set specs. weights_nonneg spec"
    and "sm_bounded sm"
  shows "sm_bounded (fst (spec_loop s w st row rel specs sm)) \<and>
         (\<forall>r \<in> set (snd (spec_loop s w st row rel specs sm)).
             0 \<le> instant_score r \<and> instant_score r \<le> 1 \<and> 0 \<le> karma_score r \<and> karma_score r \<le> 1)"
  using assms(5,6)
proof (induction specs arbitrary: sm)
  case Nil
  then show ?case by simp
next
  case (Cons spec specs)
  let ?i = "component_score row st spec"
  let ?k = "karma_of s w rel ?i (sm (vehicle_id row, name spec))"
  have i: "0 \<le> ?i \<and> ?i \<le> 1"
    using Cons.prems(1) by (simp add: component_score_range)
  have k: "0 \<le> ?k \<and> ?k \<le> 1"
    by (rule karma_of_range) (use assms(1-4) i Cons.prems(2) in \<open>auto simp: sm_bounded_def\<close>)
  have b': "sm_bounded (sm((vehicle_id row, name spec) \<mapsto> ?k))"
    using Cons.prems(2) k by (auto simp: sm_bounded_def)
  have w': "\<forall>spec \<in> set specs. weights_nonneg spec"
    using Cons.prems(1) by simp
  note ih = Cons.IH[OF w' b']
  with i k show ?case
    by (simp add: spec_loop_Cons Let_def fun_upd_def)
qed

lemma sorted_rows_head:
  assumes "sorted (map (\<lambda>r. (vehicle_id r, lap r)) (row # rest))"
    and "r \<in> set rest" and "vehicle_id r = vehicle_id row"
  shows "lap row \<le> lap r"
  using assms by auto

lemma starts_ok_step:
  assumes "sorted (map (\<lambda>r. (vehicle_id r, lap r)) (row # rest))"
    and "starts_ok starts (row # rest)"
  shows "starts_ok (if starts (vehicle_id row) = None
                    then starts(vehicle_id row \<mapsto> lap row) else starts) rest"
  using assms unfolding starts_ok_def by (auto split: if_splits)

lemma relative_lap_pos:
  assumes "starts_ok starts (row # rest)"
  shows "1 \<le> lap row - the ((if starts (vehicle_id row) = None
                    then starts(vehicle_id row \<mapsto> lap row) else starts) (vehicle_id row)) + 1"
  using assms unfolding starts_ok_def by auto

lemma row_loop_Cons:
  "row_loop s w st specs (row # rest) sm starts =
     (let starts' = (if starts (vehicle_id row) = None
                     then starts(vehicle_id row \<mapsto> lap row) else starts);
          res = spec_loop s w st row (lap row - the (starts' (vehicle_id row)) + 1) specs sm
      in snd res @ row_loop s w st specs rest (fst res) starts')"
  by (simp add: Let_def split: prod.splits)

declare row_loop.simps(2) [simp del]

lemma row_loop_bounded:
  assumes "0 \<le> s" "s \<le> 1" "0 \<le> w"
    and "\<forall>spec \<in> set specs. weights_nonneg spec"
    and "sorted (map (\<lambda>r. (vehicle_id r, lap r)) rs)"
    and "starts_ok starts rs"
    and "sm_bounded sm"
    and "r \<in> set (row_loop s w st specs rs sm starts)"
  shows "0 \<le> instant_score r \<and> instant_score r \<le> 1 \<and> 0 \<le> karma_score r \<and> karma_score r \<le> 1"
  using assms(5-8)
proof (induction rs arbitrary: sm starts)
  case Nil
  then show ?case by simp
next
  case (Cons row rest)
  let ?starts = "if starts (vehicle_id row) = None
                 then starts(vehicle_id row \<mapsto> lap row) else starts"
  let ?rel = "lap row - the (?starts (vehicle_id row)) + 1"
  let ?res = "spec_loop s w st row ?rel specs sm"
  have rel: "0 \<le> ?rel"
    using relative_lap_pos[OF Cons.prems(2)] by linarith
  have sl: "sm_bounded (fst ?res) \<and>
         (\<forall>r \<in> set (snd ?res).
             0 \<le> instant_score r \<and> instant_score r \<le> 1 \<and> 0 \<le> karma_score r \<and> karma_score r \<le> 1)"
    by (rule spec_loop_bounded[OF assms(1-3) rel assms(4) Cons.prems(3)])
  have so: "starts_ok ?starts rest"
    by (rule starts_ok_step[OF Cons.prems(1,2)])
  have sr: "sorted (map (\<lambda>r. (vehicle_id r, lap r)) rest)"
    using Cons.prems(1) by simp
  from Cons.prems(4) have "r \<in> set (snd ?res) \<or> r \<in> set (row_loop s w st specs rest (fst ?res) ?starts)"
    by (simp add: row_loop_Cons Let_def)
  then show ?case
  proof
    assume "r \<in> set (snd ?res)"
    with sl show ?thesis by blast
  next
    assume "r \<in> set (row_loop s w st specs rest (fst ?res) ?starts)"
    with Cons.IH[OF sr so] sl show ?thesis by blast
  qed
qed

lemma COMPONENT_SPECS_distinct: "distinct (map name COMPONENT_SPECS)"
  by (simp add: COMPONENT_SPECS_def)

lemma COMPONENT_SPECS_nonneg: "\<forall>spec \<in> set COMPONENT_SPECS. weights_nonneg spec"
  by (simp add: COMPONENT_SPECS_def weights_nonneg_def)

lemma sorted_sort_rows: "sorted (map (\<lambda>r. (vehicle_id r, lap r)) (sort_rows rs))"
  by (simp add: sort_rows_def)

lemma compute_stream_df1: "compute_stream (3/5) (1/500) df1 = Inr out1"
  by code_simp

text \<open>
  Claim C4: with the smoothing factor in \<open>[0, 1]\<close> and a non-negative wear rate, which
  covers the defaults 0.6 and 0.002, every record of the output has both scores in
  \<open>[0, 1]\<close>.
\<close>

theorem compute_stream_bounded:
  assumes "0 \<le> smoothing" "smoothing \<le> 1" "0 \<le> wear_rate"
    and "compute_stream smoothing wear_rate df = Inr out"
    and "r \<in> set (records out)"
  shows "0 \<le> instant_score r \<and> instant_score r \<le> 1 \<and> 0 \<le> karma_score r \<and> karma_score r \<le> 1"
proof (cases "df_empty df")
  case True
  with assms(4,5) show ?thesis
    by (auto simp: compute_stream_def)
next
  case False
  with assms(4) have
    "records out = row_loop smoothing wear_rate (column_stats df required_cols) COMPONENT_SPECS
                     (sort_rows (rows df)) Map.empty Map.empty"
    by (auto simp: compute_stream_def Let_def split: if_splits)
  with assms(5) show ?thesis
    using row_loop_bounded[OF assms(1-3) COMPONENT_SPECS_nonneg sorted_sort_rows,
            where starts = Map.empty and sm = Map.empty and r = r]
    by (simp add: starts_ok_def sm_bounded_def)
qed

text \<open>
  Claim C4, witness: the default parameters on \<open>df1\<close>, whose output \<open>out1\<close> has
  eight records.
\<close>

theorem compute_stream_bounded_witness:
  "compute_stream (3/5) (1/500) df1 = Inr out1 \<and> length (records out1) = 8 \<and>
   list_all (\<lambda>r. 0 \<le> instant_score r \<and> instant_score r \<le> 1 \<and> 0 \<le> karma_score r \<and> karma_score r \<le> 1)
     (records out1)"
proof -
  have ne: "length (records out1) = 8"
    by (simp add: out1_def)
  have "\<And>r. r \<in> set (records out1) \<Longrightarrow>
       0 \<le> instant_score r \<and> instant_score r \<le> 1 \<and> 0 \<le> karma_score r \<and> karma_score r \<le> 1"
    by (rule compute_stream_bounded[OF _ _ _ compute_stream_df1]) simp_all
  then have "list_all (\<lambda>r. 0 \<le> instant_score r \<and> instant_score r \<le> 1
                            \<and> 0 \<le> karma_score r \<and> karma_score r \<le> 1) (records out1)"
    unfolding list_all_iff by blast
  with compute_stream_df1 ne show ?thesis by (intro conjI)
qed

section \<open>The risk engine: the monotonic floor\<close>

lemma spec_loop_other:
  assumes "vehicle_id row \<noteq> v \<or> c \<notin> name ` set specs"
  shows "filter (\<lambda>r. rec_vehicle_id r = v \<and> component r = c) (snd (spec_loop s w st row rel specs sm)) = []
       \<and> fst (spec_loop s w st row rel specs sm) (v, c) = sm (v, c)"
  using assms
proof (induction specs arbitrary: sm)
  case Nil
  then show ?case by simp
next
  case (Cons spec specs)
  let ?k = "karma_of s w rel (component_score row st spec) (sm (vehicle_id row, name spec))"
  have a: "vehicle_id row \<noteq> v \<or> c \<notin> name ` set specs"
    using Cons.prems by auto
  have ne: "(vehicle_id row, name spec) \<noteq> (v, c)"
    using Cons.prems by auto
  note ih = Cons.IH[OF a, of "sm((vehicle_id row, name spec) \<mapsto> ?k)"]
  with ne Cons.prems show ?case
    by (auto simp: spec_loop_Cons Let_def fun_upd_def)
qed

lemma spec_loop_track:
  assumes "distinct (map name specs)" and "vehicle_id row = v" and "c \<in> name ` set specs"
  shows "\<exists>spec \<in> set specs. name spec = c \<and>
          filter (\<lambda>r. rec_vehicle_id r = v \<and> component r = c) (snd (spec_loop s w st row rel specs sm))
            = [\<lparr>rec_vehicle_id = v, rec_lap = lap row, component = c,
                instant_score = component_score row st spec,
                karma_score = karma_of s w rel (component_score row st spec) (sm (v, c))\<rparr>]
          \<and> fst (spec_loop s w st row rel specs sm) (v, c)
               = Some (karma_of s w rel (component_score row st spec) (sm (v, c)))"
  using assms(1,3)
proof (induction specs arbitrary: sm)
  case Nil
  then show ?case by simp
next
  case (Cons spec specs)
  let ?k = "karma_of s w rel (component_score row st spec) (sm (vehicle_id row, name spec))"
  let ?sm = "sm((vehicle_id row, name spec) \<mapsto> ?k)"
  show ?case
  proof (cases "name spec = c")
    case True
    then have "c \<notin> name ` set specs"
      using Cons.prems(1) by auto
    then have "vehicle_id row \<noteq> v \<or> c \<notin> name ` set specs" by simp
    note o = spec_loop_other[OF this, of s w st rel ?sm]
    with True assms(2) show ?thesis
      by (auto simp: spec_loop_Cons Let_def fun_upd_def)
  next
    case False
    then have c: "c \<in> name ` set specs"
      using Cons.prems(2) by auto
    have d: "distinct (map name specs)"
      using Cons.prems(1) by simp
    from Cons.IH[OF d c, of ?sm] obtain spec' where
      s': "spec' \<in> set specs" "name spec' = c"
        "filter (\<lambda>r. rec_vehicle_id r = v \<and> component r = c) (snd (spec_loop s w st row rel specs ?sm))
            = [\<lparr>rec_vehicle_id = v, rec_lap = lap row, component = c,
                instant_score = component_score row st spec',
                karma_score = karma_of s w rel (component_score row st spec') (?sm (v, c))\<rparr>]"
        "fst (spec_loop s w st row rel specs ?sm) (v, c)
               = Some (karma_of s w rel (component_score row st spec') (?sm (v, c)))"
      by blast
    have e: "?sm (v, c) = sm (v, c)"
      using False by simp
    show ?thesis
      using s' False unfolding e
      by (intro bexI[of _ spec']) (auto simp: spec_loop_Cons Let_def fun_upd_def)
  qed
qed

lemma wear_mono: "0 \<le> w \<Longrightarrow> l \<le> l' \<Longrightarrow> wear w l \<le> wear w l'"
  unfolding wear_def by (simp add: mult_left_mono min.coboundedI2)

lemma wear_nonneg: "0 \<le> w \<Longrightarrow> 0 \<le> l \<Longrightarrow> 0 \<le> wear w l"
  unfolding wear_def by simp

lemma karma_of_zero:
  "karma_of s w rel 0 prev = min 1 (s * (case prev of None \<Rightarrow> 0 | Some p \<Rightarrow> p) + wear w rel)"
  by (simp add: karma_of_def wear_def)

lemma karma_first_step:
  assumes "0 \<le> s" "0 \<le> W" "W \<le> W'" "k = min 1 (W::real)"
  shows "k \<le> min 1 (s * k + W')"
proof -
  have "0 \<le> k" using assms by simp
  then have "0 \<le> s * k" using assms(1) by simp
  moreover have "k \<le> W" "k \<le> 1" using assms(4) by simp_all
  ultimately show ?thesis using assms(3) by simp
qed

lemma karma_next_step:
  assumes "0 \<le> s" "W \<le> W'" "p \<le> min 1 (s * p + W)" "k = min 1 (s * p + (W::real))"
  shows "k \<le> min 1 (s * k + W')"
proof -
  have "p \<le> k" using assms(3,4) by simp
  then have "s * p \<le> s * k" using assms(1) by (simp add: mult_left_mono)
  moreover have "k \<le> s * p + W" "k \<le> 1" using assms(4) by simp_all
  ultimately show ?thesis using assms(2) by simp
qed

lemma row_loop_monotone:
  assumes "0 \<le> s" "0 \<le> w" "distinct (map name specs)"
    and "sorted (map (\<lambda>r. (vehicle_id r, lap r)) rs)"
    and "starts_ok starts rs"
    and "track_inv s w sm starts rs v c"
    and "\<forall>r \<in> set (row_loop s w st specs rs sm starts).
            rec_vehicle_id r = v \<and> component r = c \<longrightarrow> instant_score r = 0"
  shows "sorted (map karma_score
            (filter (\<lambda>r. rec_vehicle_id r = v \<and> component r = c) (row_loop s w st specs rs sm starts)))
       \<and> (\<forall>p. sm (v, c) = Some p \<longrightarrow>
            (\<forall>r \<in> set (filter (\<lambda>r. rec_vehicle_id r = v \<and> component r = c)
                         (row_loop s w st specs rs sm starts)). p \<le> karma_score r))"
  using assms(4-7)
proof (induction rs arbitrary: sm starts)
  case Nil
  then show ?case by simp
next
  case (Cons row rest)
  let ?P = "\<lambda>r. rec_vehicle_id r = v \<and> component r = c"
  let ?starts = "if starts (vehicle_id row) = None
                 then starts(vehicle_id row \<mapsto> lap row) else starts"
  let ?rel = "lap row - the (?starts (vehicle_id row)) + 1"
  let ?res = "spec_loop s w st row ?rel specs sm"
  let ?tail = "row_loop s w st specs rest (fst ?res) ?starts"
  have out: "row_loop s w st specs (row # rest) sm starts = snd ?res @ ?tail"
    by (simp add: row_loop_Cons Let_def)
  have rel: "1 \<le> ?rel"
    by (rule relative_lap_pos[OF Cons.prems(2)])
  have so: "starts_ok ?starts rest"
    by (rule starts_ok_step[OF Cons.prems(1,2)])
  have sr: "sorted (map (\<lambda>r. (vehicle_id r, lap r)) rest)"
    using Cons.prems(1) by simp
  have zt: "\<forall>r \<in> set ?tail. ?P r \<longrightarrow> instant_score r = 0"
    using Cons.prems(4) unfolding out by simp
  have zh: "\<forall>r \<in> set (snd ?res). ?P r \<longrightarrow> instant_score r = 0"
    using Cons.prems(4) unfolding out by simp
  show ?case
  proof (cases "vehicle_id row = v \<and> c \<in> name ` set specs")
    case False
    then have "vehicle_id row \<noteq> v \<or> c \<notin> name ` set specs" by blast
    note o = spec_loop_other[OF this, of s w st ?rel sm]
    have ti: "track_inv s w (fst ?res) ?starts rest v c"
      using Cons.prems(3) o unfolding track_inv_def by auto
    note ih = Cons.IH[OF sr so ti zt]
    show ?thesis
      unfolding out using o ih by simp
  next
    case True
    then have vv: "vehicle_id row = v" and cc: "c \<in> name ` set specs" by simp_all
    from spec_loop_track[OF assms(3) vv cc, of s w st ?rel sm] obtain spec where
      sp: "spec \<in> set specs" "name spec = c"
        "filter ?P (snd ?res)
            = [\<lparr>rec_vehicle_id = v, rec_lap = lap row, component = c,
                instant_score = component_score row st spec,
                karma_score = karma_of s w ?rel (component_score row st spec) (sm (v, c))\<rparr>]"
        "fst ?res (v, c) = Some (karma_of s w ?rel (component_score row st spec) (sm (v, c)))"
      by blast
    have "\<lparr>rec_vehicle_id = v, rec_lap = lap row, component = c,
                instant_score = component_score row st spec,
                karma_score = karma_of s w ?rel (component_score row st spec) (sm (v, c))\<rparr>
            \<in> set (filter ?P (snd ?res))"
      unfolding sp(3) by simp
    with zh have i0: "component_score row st spec = 0"
      by fastforce
    define k where "k = karma_of s w ?rel 0 (sm (v, c))"
    have f: "filter ?P (snd ?res)
            = [\<lparr>rec_vehicle_id = v, rec_lap = lap row, component = c,
                instant_score = 0, karma_score = k\<rparr>]"
      using sp(3) i0 k_def by simp
    have smk: "fst ?res (v, c) = Some k"
      using sp(4) i0 k_def by simp
    obtain l0 where l0: "?starts v = Some l0" "?rel = lap row - l0 + 1"
      using vv by (cases "starts v") auto
    have l0': "\<And>p. sm (v, c) = Some p \<Longrightarrow> starts v = Some l0"
      using Cons.prems(3) l0(1) vv unfolding track_inv_def by (auto split: if_splits)
    have wpos: "0 \<le> wear w ?rel"
      using rel assms(2) by (intro wear_nonneg) linarith+
    have pk: "\<And>p. sm (v, c) = Some p \<Longrightarrow> p \<le> k"
    proof -
      fix p assume p: "sm (v, c) = Some p"
      from Cons.prems(3) p l0'[OF p] vv have "p \<le> min 1 (s * p + wear w (lap row - l0 + 1))"
        unfolding track_inv_def by auto
      then show "p \<le> k"
        using p l0(2) by (simp add: k_def karma_of_zero)
    qed
    have ti: "track_inv s w (fst ?res) ?starts rest v c"
      unfolding track_inv_def
    proof (intro allI impI)
      fix p assume "fst ?res (v, c) = Some p"
      with smk have pk': "p = k" by simp
      have "\<forall>r \<in> set rest. vehicle_id r = v \<longrightarrow> k \<le> min 1 (s * k + wear w (lap r - l0 + 1))"
      proof (intro ballI impI)
        fix r assume r: "r \<in> set rest" "vehicle_id r = v"
        have "lap row \<le> lap r"
          using sorted_rows_head[OF Cons.prems(1) r(1)] r(2) vv by simp
        then have wm: "wear w ?rel \<le> wear w (lap r - l0 + 1)"
          unfolding l0(2) using assms(2) by (intro wear_mono) simp_all
        show "k \<le> min 1 (s * k + wear w (lap r - l0 + 1))"
        proof (cases "sm (v, c)")
          case None
          then have "k = min 1 (wear w ?rel)"
            by (simp add: k_def karma_of_zero)
          from karma_first_step[OF assms(1) wpos wm this] show ?thesis .
        next
          case (Some p')
          then have kk: "k = min 1 (s * p' + wear w ?rel)"
            by (simp add: k_def karma_of_zero)
          from Cons.prems(3) Some l0'[OF Some] vv
          have "p' \<le> min 1 (s * p' + wear w (lap row - l0 + 1))"
            unfolding track_inv_def by auto
          then have "p' \<le> min 1 (s * p' + wear w ?rel)"
            using l0(2) by simp
          from karma_next_step[OF assms(1) wm this kk] show ?thesis .
        qed
      qed
      with pk' l0(1) show "\<exists>l0. ?starts v = Some l0 \<and>
           (\<forall>r \<in> set rest. vehicle_id r = v \<longrightarrow> p \<le> min 1 (s * p + wear w (lap r - l0 + 1)))"
        by blast
    qed
    note ih = Cons.IH[OF sr so ti zt]
    from ih smk have tl: "sorted (map karma_score (filter ?P ?tail))"
      "\<forall>r \<in> set (filter ?P ?tail). k \<le> karma_score r"
      by blast+
    show ?thesis
      unfolding out using f tl pk by (auto simp: order_trans[OF pk])
  qed
qed

lemma spec_loop_keys:
  "r \<in> set (snd (spec_loop s w st row rel specs sm))
     \<Longrightarrow> rec_vehicle_id r = vehicle_id row \<and> rec_lap r = lap row"
proof (induction specs arbitrary: sm)
  case Nil
  then show ?case by simp
next
  case (Cons spec specs)
  from Cons.prems Cons.IH show ?case
    by (auto simp: spec_loop_Cons Let_def)
qed

lemma row_loop_keys_subset:
  "r \<in> set (row_loop s w st specs rs sm starts)
     \<Longrightarrow> (rec_vehicle_id r, rec_lap r) \<in> (\<lambda>row. (vehicle_id row, lap row)) ` set rs"
proof (induction rs arbitrary: sm starts)
  case Nil
  then show ?case by simp
next
  case (Cons row rest)
  from Cons.prems Cons.IH show ?case
    by (auto simp: row_loop_Cons Let_def dest: spec_loop_keys)
qed

lemma row_loop_keys_sorted:
  "sorted (map (\<lambda>row. (vehicle_id row, lap row)) rs)
     \<Longrightarrow> sorted (map (\<lambda>r. (rec_vehicle_id r, rec_lap r)) (row_loop s w st specs rs sm starts))"
proof (induction rs arbitrary: sm starts)
  case Nil
  then show ?case by simp
next
  case (Cons row rest)
  let ?starts = "if starts (vehicle_id row) = None
                 then starts(vehicle_id row \<mapsto> lap row) else starts"
  let ?res = "spec_loop s w st row (lap row - the (?starts (vehicle_id row)) + 1) specs sm"
  let ?tail = "row_loop s w st specs rest (fst ?res) ?starts"
  let ?k = "\<lambda>r. (rec_vehicle_id r, rec_lap r)"
  have out: "row_loop s w st specs (row # rest) sm starts = snd ?res @ ?tail"
    by (simp add: row_loop_Cons Let_def)
  have h: "\<forall>r \<in> set (snd ?res). ?k r = (vehicle_id row, lap row)"
    using spec_loop_keys by blast
  then have "\<forall>x \<in> set (map ?k (snd ?res)). \<forall>y \<in> set (map ?k (snd ?res)). x \<le> y"
    by simp
  then have s1: "sorted (map ?k (snd ?res))"
    by (simp add: sorted_wrt_iff_nth_less)
  have s2: "sorted (map ?k ?tail)"
    using Cons.IH Cons.prems by simp
  have "\<forall>y \<in> set ?tail. (vehicle_id row, lap row) \<le> ?k y"
  proof
    fix y assume "y \<in> set ?tail"
    then have "?k y \<in> (\<lambda>row. (vehicle_id row, lap row)) ` set rest"
      by (rule row_loop_keys_subset)
    with Cons.prems show "(vehicle_id row, lap row) \<le> ?k y"
      by auto
  qed
  with h s1 s2 show ?case
    unfolding out by (simp add: sorted_append)
qed

lemma sorted_laps_of_vehicle:
  assumes "sorted (map (\<lambda>r. (rec_vehicle_id r, rec_lap r)) xs)"
  shows "sorted (map rec_lap (filter (\<lambda>r. rec_vehicle_id r = v \<and> component r = c) xs))"
proof -
  have "sorted_wrt (\<lambda>a b. (rec_vehicle_id a, rec_lap a) \<le> (rec_vehicle_id b, rec_lap b))
          (filter (\<lambda>r. rec_vehicle_id r = v \<and> component r = c) xs)"
    using assms by (simp add: sorted_map sorted_wrt_filter)
  then have "sorted_wrt (\<lambda>a b. rec_lap a \<le> rec_lap b)
          (filter (\<lambda>r. rec_vehicle_id r = v \<and> component r = c) xs)"
    by (rule sorted_wrt_mono_rel[rotated]) auto
  then show ?thesis
    by (simp add: sorted_map)
qed

text \<open>
  Claim C5: for a vehicle and a component whose instant score is 0 in every record, the
  karma scores, read in the order of the output, never decrease; that order is the order
  of increasing lap. The smoothing factor and the wear rate are non-negative.
\<close>

theorem karma_monotone_floor:
  assumes "0 \<le> smoothing" "0 \<le> wear_rate"
    and "compute_stream smoothing wear_rate df = Inr out"
    and "\<forall>r \<in> set (records out). rec_vehicle_id r = v \<and> component r = c \<longrightarrow> instant_score r = 0"
  shows "sorted (map karma_score
            (filter (\<lambda>r. rec_vehicle_id r = v \<and> component r = c) (records out)))
       \<and> sorted (map rec_lap
            (filter (\<lambda>r. rec_vehicle_id r = v \<and> component r = c) (records out)))"
proof (cases "df_empty df")
  case True
  with assms(3) show ?thesis
    by (auto simp: compute_stream_def)
next
  case False
  with assms(3) have
    "records out = row_loop smoothing wear_rate (column_stats df required_cols) COMPONENT_SPECS
                     (sort_rows (rows df)) Map.empty Map.empty"
    by (auto simp: compute_stream_def Let_def split: if_splits)
  with assms(4) show ?thesis
    using row_loop_monotone[OF assms(1,2) COMPONENT_SPECS_distinct sorted_sort_rows,
            where starts = Map.empty and sm = Map.empty and v = v and c = c]
      sorted_laps_of_vehicle[OF row_loop_keys_sorted[OF sorted_sort_rows]]
    by (simp add: starts_ok_def track_inv_def)
qed

text \<open>
  Claim C5, witness: the gearbox of vehicle \<open>V1\<close> in \<open>df1\<close> has instant score 0 on
  both laps, and its karma goes from 1/500 to 13/2500.
\<close>

theorem karma_monotone_floor_witness:
  "compute_stream (3/5) (1/500) df1 = Inr out1 \<and>
   map instant_score (filter (\<lambda>r. rec_vehicle_id r = ''V1'' \<and> component r = ''gearbox'') (records out1)) = [0, 0] \<and>
   map karma_score (filter (\<lambda>r. rec_vehicle_id r = ''V1'' \<and> component r = ''gearbox'') (records out1))
     = [1/500, 13/2500] \<and>
   sorted (map karma_score
            (filter (\<lambda>r. rec_vehicle_id r = ''V1'' \<and> component r = ''gearbox'') (records out1)))"
proof -
  have z: "\<forall>r \<in> set (records out1).
       rec_vehicle_id r = ''V1'' \<and> component r = ''gearbox'' \<longrightarrow> instant_score r = 0"
    by (simp add: out1_def)
  have "0 \<le> (3/5::real)" "0 \<le> (1/500::real)" by simp_all
  from karma_monotone_floor[OF this compute_stream_df1 z] compute_stream_df1 show ?thesis
    by (simp add: out1_def)
qed

section \<open>The lap window builder\<close>

lemma first_is_earliest:
  assumes "sorted (map ev_sort_key xs)" and "x \<in> set (drop_duplicates_first ev_key xs)"
    and "y \<in> set xs" and "ev_key y = ev_key x"
  shows "ev_timestamp x \<le> ev_timestamp y"
proof -
  from drop_duplicates_first_split[OF assms(2)] obtain as bs where
    s: "xs = as @ x # bs" "ev_key x \<notin> ev_key ` set as" by blast
  have "y \<notin> set as"
    using s(2) assms(4) by (metis imageI)
  with assms(3) s(1) have "y = x \<or> y \<in> set bs" by auto
  then show ?thesis
  proof
    assume "y = x" then show ?thesis by simp
  next
    assume "y \<in> set bs"
    with assms(1) s(1) have "ev_sort_key x \<le> ev_sort_key y"
      by (auto simp: sorted_append)
    with assms(4) show ?thesis
      by (auto simp: ev_sort_key_def ev_key_def)
  qed
qed

lemma last_is_latest:
  assumes "sorted (map ev_sort_key xs)" and "x \<in> set (drop_duplicates_last ev_key xs)"
    and "y \<in> set xs" and "ev_key y = ev_key x"
  shows "ev_timestamp y \<le> ev_timestamp x"
proof -
  from drop_duplicates_last_split[OF assms(2)] obtain as bs where
    s: "xs = as @ x # bs" "ev_key x \<notin> ev_key ` set bs" by blast
  have "y \<notin> set bs"
    using s(2) assms(4) by (metis imageI)
  with assms(3) s(1) have "y = x \<or> y \<in> set as" by auto
  then show ?thesis
  proof
    assume "y = x" then show ?thesis by simp
  next
    assume "y \<in> set as"
    with assms(1) s(1) have "ev_sort_key y \<le> ev_sort_key x"
      by (auto simp: sorted_append)
    with assms(4) show ?thesis
      by (auto simp: ev_sort_key_def ev_key_def)
  qed
qed

lemma normalize_lap_bounds_columns:
  "set [''vehicle_id'', ''lap_number'', ''timestamp''] \<subseteq> set (ev_columns (normalize_lap_bounds df))
     \<longleftrightarrow> has_lap_columns df"
  by (auto simp: normalize_lap_bounds_def has_lap_columns_def rename_column_def Let_def)

lemma normalize_lap_bounds_events [simp]: "events (normalize_lap_bounds df) = events df"
  by (simp add: normalize_lap_bounds_def Let_def)

lemma ensure_columns_Inr:
  "ensure_columns cols required nm = Inr u \<Longrightarrow> set required \<subseteq> set cols"
  by (auto simp: ensure_columns_def Let_def filter_empty_conv split: if_splits)

lemma prepare_lap_windows_Inr:
  assumes "prepare_lap_windows lap_start lap_end = Inr ws"
  shows "has_lap_columns lap_start" and "has_lap_columns lap_end"
    and "ws = sort_key lw_key (map make_window (joined (dedup_starts lap_start) (dedup_ends lap_end)))"
proof -
  from assms obtain u where
    "ensure_columns (ev_columns (normalize_lap_bounds lap_start))
       [''vehicle_id'', ''lap_number'', ''timestamp''] ''lap_start'' = Inr u"
    by (auto simp: prepare_lap_windows_def Let_def split: sum.splits)
  from ensure_columns_Inr[OF this] show "has_lap_columns lap_start"
    by (simp only: normalize_lap_bounds_columns)
  from assms obtain u where
    "ensure_columns (ev_columns (normalize_lap_bounds lap_end))
       [''vehicle_id'', ''lap_number'', ''timestamp''] ''lap_end'' = Inr u"
    by (auto simp: prepare_lap_windows_def Let_def split: sum.splits)
  from ensure_columns_Inr[OF this] show "has_lap_columns lap_end"
    by (simp only: normalize_lap_bounds_columns)
  have m: "merge_windows (dedup_starts lap_start) (dedup_ends lap_end)
            = Inr (joined (dedup_starts lap_start) (dedup_ends lap_end))"
    by (simp add: merge_windows_def joined_def dedup_starts_def dedup_ends_def
          distinct_drop_duplicates_first distinct_drop_duplicates_last)
  from assms show "ws = sort_key lw_key
                     (map make_window (joined (dedup_starts lap_start) (dedup_ends lap_end)))"
    unfolding prepare_lap_windows_def Let_def
    by (simp add: m[unfolded dedup_starts_def dedup_ends_def] dedup_starts_def dedup_ends_def
          split: sum.splits prod.splits)
qed

lemma rename_column_distinct:
  assumes "distinct cols" "new \<notin> set cols"
  shows "distinct (rename_column old new cols)"
proof -
  have "inj_on (\<lambda>c. if c = old then new else c) (set cols)"
    using assms(2) by (auto simp: inj_on_def split: if_splits)
  with assms(1) show ?thesis
    by (simp add: rename_column_def distinct_map)
qed

lemma set_rename_column:
  "set (rename_column old new cols) = (\<lambda>c. if c = old then new else c) ` set cols"
  by (simp add: rename_column_def)

lemma prepare_lap_windows_accepts:
  assumes hs: "has_lap_columns lap_start" "has_lap_columns lap_end"
    and d: "distinct (ev_columns (normalize_lap_bounds lap_start))"
           "distinct (ev_columns (normalize_lap_bounds lap_end))"
    and sh: "set (ev_columns (normalize_lap_bounds lap_start))
               \<inter> set (ev_columns (normalize_lap_bounds lap_end))
             \<subseteq> {''vehicle_id'', ''lap_number'', ''timestamp''}"
    and nl: "{''lap_start_time'', ''lap_end_time''}
               \<inter> (set (ev_columns (normalize_lap_bounds lap_start))
                    \<union> set (ev_columns (normalize_lap_bounds lap_end))) = {}"
  shows "\<exists>ws. prepare_lap_windows lap_start lap_end = Inr ws"
proof -
  let ?S = "normalize_lap_bounds lap_start"
  let ?E = "normalize_lap_bounds lap_end"
  let ?req = "[''vehicle_id'', ''lap_number'', ''timestamp'']"
  let ?lcols = "rename_column ''timestamp'' ''lap_start_time'' (ev_columns ?S)"
  let ?rcols = "rename_column ''timestamp'' ''lap_end_time'' (ev_columns ?E)"
  let ?right = "filter (\<lambda>c. c \<notin> set [''vehicle_id'', ''lap_number'']) ?rcols"
  let ?starts = "drop_duplicates_first ev_key (sort_key ev_sort_key (events ?S))"
  let ?ends = "drop_duplicates_last ev_key (sort_key ev_sort_key (events ?E))"
  from hs have rs: "set ?req \<subseteq> set (ev_columns ?S)" and re: "set ?req \<subseteq> set (ev_columns ?E)"
    by (simp_all only: normalize_lap_bounds_columns)
  from nl have nS: "''lap_start_time'' \<notin> set (ev_columns ?S)" "''lap_end_time'' \<notin> set (ev_columns ?S)"
    and nE: "''lap_start_time'' \<notin> set (ev_columns ?E)" "''lap_end_time'' \<notin> set (ev_columns ?E)"
    by auto
  have e1: "ensure_columns (ev_columns ?S) ?req ''lap_start'' = Inr ()"
    by (rule ensure_columns_ok[OF rs])
  have e2: "ensure_columns (ev_columns ?E) ?req ''lap_end'' = Inr ()"
    by (rule ensure_columns_ok[OF re])
  have s1: "sort_values_labels (ev_columns ?S) ?req = Inr ()"
    by (rule sort_values_labels_ok[OF d(1) rs])
  have s2: "sort_values_labels (ev_columns ?E) ?req = Inr ()"
    by (rule sort_values_labels_ok[OF d(2) re])
  have mw: "merge_windows ?starts ?ends = Inr (joined ?starts ?ends)"
    by (simp add: merge_windows_def joined_def
          distinct_drop_duplicates_first distinct_drop_duplicates_last)
  have dl: "distinct ?lcols" by (rule rename_column_distinct[OF d(1) nS(1)])
  have "distinct ?rcols" by (rule rename_column_distinct[OF d(2) nE(2)])
  then have dr: "distinct ?right" by (rule distinct_filter)
  have lc: "set ?lcols = insert ''lap_start_time'' (set (ev_columns ?S) - {''timestamp''})"
    using rs by (auto simp: set_rename_column)
  have rc: "set ?rcols = insert ''lap_end_time'' (set (ev_columns ?E) - {''timestamp''})"
    using re by (auto simp: set_rename_column)
  have rg: "set ?right = set ?rcols - {''vehicle_id'', ''lap_number''}"
    by auto
  have dj: "set ?lcols \<inter> set ?right = {}"
  proof (rule ccontr)
    assume "set ?lcols \<inter> set ?right \<noteq> {}"
    then obtain c where c: "c \<in> set ?lcols" "c \<in> set ?right" by blast
    from c(2) have k: "c \<noteq> ''vehicle_id''" "c \<noteq> ''lap_number''" and cr: "c \<in> set ?rcols"
      unfolding rg by simp_all
    from c(1) have "c = ''lap_start_time'' \<or> (c \<in> set (ev_columns ?S) \<and> c \<noteq> ''timestamp'')"
      unfolding lc by simp
    moreover from cr have "c = ''lap_end_time'' \<or> (c \<in> set (ev_columns ?E) \<and> c \<noteq> ''timestamp'')"
      unfolding rc by simp
    ultimately have "c \<in> set (ev_columns ?S) \<inter> set (ev_columns ?E)" "c \<noteq> ''timestamp''"
      using nS nE by auto
    with sh k show False by auto
  qed
  have ml: "merge_labels (\<lambda>x suffix. x @ suffix) ?lcols ?right = Inr (?lcols, ?right)"
    by (rule merge_labels_disjoint[OF dj])
  have dd: "distinct (?lcols @ ?right)"
    using dl dr dj by (simp only: distinct_append)
  have inl: "''vehicle_id'' \<in> set ?lcols" "''lap_number'' \<in> set ?lcols"
    "''lap_start_time'' \<in> set ?lcols"
    using rs unfolding lc by simp_all
  have inr: "''lap_end_time'' \<in> set ?right"
    unfolding rg rc by simp
  have s3: "sort_values_labels (?lcols @ ?right) [''vehicle_id'', ''lap_number''] = Inr ()"
    using inl by (intro sort_values_labels_ok[OF dd]) (simp del: set_filter)
  have e3: "ensure_columns (?lcols @ ?right) LAP_META_COLUMNS ''lap_windows'' = Inr ()"
    using inl inr by (intro ensure_columns_ok) (simp add: LAP_META_COLUMNS_def del: set_filter)
  have g: "getitem_labels (?lcols @ ?right) [''lap_end_time'', ''lap_start_time''] = Inr ()"
    using inl inr by (intro getitem_labels_ok[OF dd]) (simp del: set_filter)
  show ?thesis
    unfolding prepare_lap_windows_def Let_def
    by (simp only: e1 e2 s1 s2 mw ml s3 e3 g sum.case prod.case) blast
qed

lemma set_joined:
  "set (joined left right) = {(s, e). s \<in> set left \<and> e \<in> set right \<and> ev_key e = ev_key s}"
  by (auto simp: joined_def)

lemma filter_key_le1:
  "distinct (map f xs) \<Longrightarrow> length (filter (\<lambda>x. f x = k) xs) \<le> 1"
proof (induction xs)
  case Nil
  then show ?case by simp
next
  case (Cons x xs)
  from Cons.prems have "\<forall>y \<in> set xs. f y \<noteq> f x"
    by (metis distinct.simps(2) imageI list.simps(9) list.set_map)
  then have "f x = k \<Longrightarrow> filter (\<lambda>x. f x = k) xs = []"
    by (auto simp: filter_empty_conv)
  with Cons show ?case by auto
qed

lemma distinct_joined_keys:
  assumes "distinct (map ev_key left)" "distinct (map ev_key right)"
  shows "distinct (map (\<lambda>p. ev_key (fst p)) (joined left right))"
  using assms(1)
proof (induction left)
  case Nil
  then show ?case by (simp add: joined_def)
next
  case (Cons s left)
  let ?blk = "map (\<lambda>e. (s, e)) (filter (\<lambda>e. ev_key e = ev_key s) right)"
  have j: "joined (s # left) right = ?blk @ joined left right"
    by (simp add: joined_def)
  have "length (filter (\<lambda>e. ev_key e = ev_key s) right) \<le> 1"
    by (rule filter_key_le1[OF assms(2)])
  then have "length (map (\<lambda>p. ev_key (fst p)) ?blk) \<le> 1" by simp
  then have d1: "distinct (map (\<lambda>p. ev_key (fst p)) ?blk)"
    by (cases "map (\<lambda>p. ev_key (fst p)) ?blk") auto
  have d2: "distinct (map (\<lambda>p. ev_key (fst p)) (joined left right))"
    using Cons by simp
  have "ev_key s \<notin> ev_key ` set left"
    using Cons.prems by auto
  then have "\<forall>a \<in> set left. ev_key a \<noteq> ev_key s"
    by (metis imageI)
  then have d3: "set (map (\<lambda>p. ev_key (fst p)) ?blk) \<inter> set (map (\<lambda>p. ev_key (fst p)) (joined left right)) = {}"
    by (auto simp: set_joined)
  show ?case
    unfolding j using d1 d2 d3 by simp
qed

lemma lw_key_make_window [simp]: "lw_key (make_window p) = ev_key (fst p)"
  by (cases p) (simp add: make_window_def lw_key_def ev_key_def)

lemma distinct_map_sort_key:
  "distinct (map f xs) \<Longrightarrow> distinct (map f (sort_key f xs))"
proof -
  assume d: "distinct (map f xs)"
  have "mset (map f (sort_key f xs)) = mset (map f xs)" by simp
  from mset_eq_imp_distinct_iff[OF this] d show ?thesis by simp
qed

lemma windows_keys_distinct:
  "distinct (map lw_key (sort_key lw_key (map make_window (joined (dedup_starts S) (dedup_ends E)))))"
proof -
  have "distinct (map (\<lambda>p. ev_key (fst p)) (joined (dedup_starts S) (dedup_ends E)))"
    by (rule distinct_joined_keys)
       (simp_all add: dedup_starts_def dedup_ends_def
          distinct_drop_duplicates_first distinct_drop_duplicates_last)
  then have "distinct (map lw_key (map make_window (joined (dedup_starts S) (dedup_ends E))))"
    by (simp add: comp_def)
  then show ?thesis
    by (rule distinct_map_sort_key)
qed

lemma set_dedup_starts: "ev_key ` set (dedup_starts S) = ev_key ` set (events S)"
  by (simp add: dedup_starts_def keys_drop_duplicates_first)

lemma set_dedup_ends: "ev_key ` set (dedup_ends E) = ev_key ` set (events E)"
  by (simp add: dedup_ends_def keys_drop_duplicates_last)

lemma windows_keys_set:
  "set (map lw_key (sort_key lw_key (map make_window (joined (dedup_starts S) (dedup_ends E)))))
     = ev_key ` set (events S) \<inter> ev_key ` set (events E)"
proof -
  have "set (map lw_key (sort_key lw_key (map make_window (joined (dedup_starts S) (dedup_ends E)))))
          = (\<lambda>p. ev_key (fst p)) ` set (joined (dedup_starts S) (dedup_ends E))"
    by (simp add: image_image)
  also have "\<dots> = ev_key ` set (dedup_starts S) \<inter> ev_key ` set (dedup_ends E)"
  proof (intro equalityI subsetI)
    fix k assume "k \<in> (\<lambda>p. ev_key (fst p)) ` set (joined (dedup_starts S) (dedup_ends E))"
    then obtain s e where "s \<in> set (dedup_starts S)" "e \<in> set (dedup_ends E)"
        "ev_key e = ev_key s" "k = ev_key s"
      by (auto simp: set_joined)
    then show "k \<in> ev_key ` set (dedup_starts S) \<inter> ev_key ` set (dedup_ends E)"
      by (metis IntI imageI)
  next
    fix k assume "k \<in> ev_key ` set (dedup_starts S) \<inter> ev_key ` set (dedup_ends E)"
    then obtain s e where se: "s \<in> set (dedup_starts S)" "e \<in> set (dedup_ends E)"
        "k = ev_key s" "k = ev_key e"
      by auto
    then have "(s, e) \<in> set (joined (dedup_starts S) (dedup_ends E))"
      by (simp add: set_joined)
    then have "ev_key (fst (s, e)) \<in> (\<lambda>p. ev_key (fst p)) ` set (joined (dedup_starts S) (dedup_ends E))"
      by (rule imageI)
    with se(3) show "k \<in> (\<lambda>p. ev_key (fst p)) ` set (joined (dedup_starts S) (dedup_ends E))"
      by simp
  qed
  finally show ?thesis
    by (simp add: set_dedup_starts set_dedup_ends)
qed

lemma window_origin:
  assumes "w \<in> set (sort_key lw_key (map make_window (joined (dedup_starts S) (dedup_ends E))))"
  shows "\<exists>s e. s \<in> set (dedup_starts S) \<and> e \<in> set (dedup_ends E) \<and> ev_key e = ev_key s
               \<and> w = make_window (s, e)"
  using assms by (auto simp: set_joined)

lemma dedup_starts_earliest:
  assumes "s \<in> set (dedup_starts S)"
  shows "s \<in> set (events S) \<and> (\<forall>y \<in> set (events S). ev_key y = ev_key s \<longrightarrow> ev_timestamp s \<le> ev_timestamp y)"
proof -
  have srt: "sorted (map ev_sort_key (sort_key ev_sort_key (events S)))" by simp
  from assms have m: "s \<in> set (drop_duplicates_first ev_key (sort_key ev_sort_key (events S)))"
    by (simp add: dedup_starts_def)
  then have "s \<in> set (events S)"
    using set_drop_duplicates_first[of ev_key "sort_key ev_sort_key (events S)"] by auto
  moreover have "\<forall>y \<in> set (events S). ev_key y = ev_key s \<longrightarrow> ev_timestamp s \<le> ev_timestamp y"
    using first_is_earliest[OF srt m] by simp
  ultimately show ?thesis by blast
qed

lemma dedup_ends_latest:
  assumes "e \<in> set (dedup_ends E)"
  shows "e \<in> set (events E) \<and> (\<forall>y \<in> set (events E). ev_key y = ev_key e \<longrightarrow> ev_timestamp y \<le> ev_timestamp e)"
proof -
  have srt: "sorted (map ev_sort_key (sort_key ev_sort_key (events E)))" by simp
  from assms have m: "e \<in> set (drop_duplicates_last ev_key (sort_key ev_sort_key (events E)))"
    by (simp add: dedup_ends_def)
  then have "e \<in> set (events E)"
    using set_drop_duplicates_last[of ev_key "sort_key ev_sort_key (events E)"] by auto
  moreover have "\<forall>y \<in> set (events E). ev_key y = ev_key e \<longrightarrow> ev_timestamp y \<le> ev_timestamp e"
    using last_is_latest[OF srt m] by simp
  ultimately show ?thesis by blast
qed

lemma window_times:
  assumes "w \<in> set (sort_key lw_key (map make_window (joined (dedup_starts S) (dedup_ends E))))"
  shows "(\<exists>s \<in> set (events S). ev_key s = lw_key w \<and> ev_timestamp s = lap_start_time w)
       \<and> (\<forall>s \<in> set (events S). ev_key s = lw_key w \<longrightarrow> lap_start_time w \<le> ev_timestamp s)
       \<and> (\<exists>e \<in> set (events E). ev_key e = lw_key w \<and> ev_timestamp e = lap_end_time w)
       \<and> (\<forall>e \<in> set (events E). ev_key e = lw_key w \<longrightarrow> ev_timestamp e \<le> lap_end_time w)
       \<and> lap_duration_s w = of_int (lap_end_time w - lap_start_time w) / 1000000000"
proof -
  from window_origin[OF assms] obtain s e where
    o: "s \<in> set (dedup_starts S)" "e \<in> set (dedup_ends E)" "ev_key e = ev_key s" "w = make_window (s, e)"
    by blast
  have k0: "lw_key w = ev_key s"
    using o(4) by simp
  have k: "lap_start_time w = ev_timestamp s" "lap_end_time w = ev_timestamp e"
    using o(4) by (simp_all add: make_window_def)
  have d: "lap_duration_s w = of_int (lap_end_time w - lap_start_time w) / 1000000000"
    using o(4) by (simp add: make_window_def)
  from dedup_starts_earliest[OF o(1)] dedup_ends_latest[OF o(2)] o(3) k0 k d
  show ?thesis by auto
qed

lemma scenario_result: "prepare_lap_windows scenario_start scenario_end = Inr scenario_windows"
  by code_simp

lemma windows_strictly_keyed:
  "sorted_wrt (\<lambda>a b. lw_key a < lw_key b)
     (sort_key lw_key (map make_window (joined (dedup_starts S) (dedup_ends E))))"
proof -
  let ?ws = "sort_key lw_key (map make_window (joined (dedup_starts S) (dedup_ends E)))"
  have "sorted (map lw_key ?ws)" "distinct (map lw_key ?ws)"
    by (simp_all add: windows_keys_distinct)
  then have "sorted_wrt (<) (map lw_key ?ws)"
    by (simp add: strict_sorted_iff)
  then show ?thesis
    by (simp add: sorted_wrt_map)
qed

lemma clash_result:
  "prepare_lap_windows clash_start plain_end = Inl (MissingColumns ''lap_windows'' [''lap_end_time''])"
  by code_simp

text \<open>
  Claim C6, as the code has it: whenever the builder accepts two tables, they have the
  required columns, and it returns one window for each (vehicle, lap) pair that has a
  start event and an end event, and none for any other pair; the windows are sorted by
  (vehicle, lap); the start time of a window is the earliest start timestamp of its
  pair and its end time the latest end timestamp. The builder does accept two tables
  with the required columns when, after the renaming of \<open>lap\<close> and \<open>value\<close>, the
  column names of each table are distinct, the two tables share no column name other
  than the three required ones, and neither has a column \<open>lap_start_time\<close> or
  \<open>lap_end_time\<close>.
\<close>

theorem prepare_lap_windows_join:
  "(prepare_lap_windows lap_start lap_end = Inr ws \<longrightarrow>
       has_lap_columns lap_start \<and> has_lap_columns lap_end
     \<and> distinct (map lw_key ws) \<and> sorted (map lw_key ws)
     \<and> set (map lw_key ws) = ev_key ` set (events lap_start) \<inter> ev_key ` set (events lap_end)
     \<and> (\<forall>w \<in> set ws.
           (\<exists>s \<in> set (events lap_start). ev_key s = lw_key w \<and> ev_timestamp s = lap_start_time w)
         \<and> (\<forall>s \<in> set (events lap_start). ev_key s = lw_key w \<longrightarrow> lap_start_time w \<le> ev_timestamp s)
         \<and> (\<exists>e \<in> set (events lap_end). ev_key e = lw_key w \<and> ev_timestamp e = lap_end_time w)
         \<and> (\<forall>e \<in> set (events lap_end). ev_key e = lw_key w \<longrightarrow> ev_timestamp e \<le> lap_end_time w)))
   \<and> (has_lap_columns lap_start \<and> has_lap_columns lap_end
      \<and> distinct (ev_columns (normalize_lap_bounds lap_start))
      \<and> distinct (ev_columns (normalize_lap_bounds lap_end))
      \<and> set (ev_columns (normalize_lap_bounds lap_start))
            \<inter> set (ev_columns (normalize_lap_bounds lap_end))
          \<subseteq> {''vehicle_id'', ''lap_number'', ''timestamp''}
      \<and> {''lap_start_time'', ''lap_end_time''}
            \<inter> (set (ev_columns (normalize_lap_bounds lap_start))
                 \<union> set (ev_columns (normalize_lap_bounds lap_end))) = {}
      \<longrightarrow> (\<exists>ws'. prepare_lap_windows lap_start lap_end = Inr ws'))"
proof (intro conjI impI)
  let ?ws = "sort_key lw_key (map make_window (joined (dedup_starts lap_start) (dedup_ends lap_end)))"
  assume a: "prepare_lap_windows lap_start lap_end = Inr ws"
  note r = prepare_lap_windows_Inr[OF a]
  show "has_lap_columns lap_start" by (rule r(1))
  show "has_lap_columns lap_end" by (rule r(2))
  show "distinct (map lw_key ws)" unfolding r(3) by (rule windows_keys_distinct)
  show "sorted (map lw_key ws)" unfolding r(3) by simp
  show "set (map lw_key ws) = ev_key ` set (events lap_start) \<inter> ev_key ` set (events lap_end)"
    unfolding r(3) by (rule windows_keys_set)
  show "\<forall>w \<in> set ws.
           (\<exists>s \<in> set (events lap_start). ev_key s = lw_key w \<and> ev_timestamp s = lap_start_time w)
         \<and> (\<forall>s \<in> set (events lap_start). ev_key s = lw_key w \<longrightarrow> lap_start_time w \<le> ev_timestamp s)
         \<and> (\<exists>e \<in> set (events lap_end). ev_key e = lw_key w \<and> ev_timestamp e = lap_end_time w)
         \<and> (\<forall>e \<in> set (events lap_end). ev_key e = lw_key w \<longrightarrow> ev_timestamp e \<le> lap_end_time w)"
    unfolding r(3) using window_times by blast
next
  assume "has_lap_columns lap_start \<and> has_lap_columns lap_end
      \<and> distinct (ev_columns (normalize_lap_bounds lap_start))
      \<and> distinct (ev_columns (normalize_lap_bounds lap_end))
      \<and> set (ev_columns (normalize_lap_bounds lap_start))
            \<inter> set (ev_columns (normalize_lap_bounds lap_end))
          \<subseteq> {''vehicle_id'', ''lap_number'', ''timestamp''}
      \<and> {''lap_start_time'', ''lap_end_time''}
            \<inter> (set (ev_columns (normalize_lap_bounds lap_start))
                 \<union> set (ev_columns (normalize_lap_bounds lap_end))) = {}"
  then show "\<exists>ws'. prepare_lap_windows lap_start lap_end = Inr ws'"
    by (elim conjE) (rule prepare_lap_windows_accepts)
qed

text \<open>
  Claim C6, witness: the start table names its columns \<open>lap\<close> and \<open>value\<close> and
  has two start events for lap 3 of \<open>V1\<close>, at 12 and at 10; the end table has two end
  events for that lap, at 20 and at 19. \<open>V2\<close> has no end event and \<open>V3\<close> no start
  event.
\<close>

theorem prepare_lap_windows_join_witness:
  "prepare_lap_windows scenario_start scenario_end = Inr scenario_windows
   \<and> has_lap_columns scenario_start \<and> has_lap_columns scenario_end
   \<and> ev_columns (normalize_lap_bounds scenario_start) = [''vehicle_id'', ''lap_number'', ''timestamp'']
   \<and> ev_columns (normalize_lap_bounds scenario_end) = [''vehicle_id'', ''lap_number'', ''timestamp'']
   \<and> (\<exists>ws'. prepare_lap_windows scenario_start scenario_end = Inr ws')
   \<and> set (map lw_key scenario_windows)
       = ev_key ` set (events scenario_start) \<inter> ev_key ` set (events scenario_end)
   \<and> map (\<lambda>w. (lw_vehicle_id w, lap_number w, lap_start_time w, lap_end_time w)) scenario_windows
       = [(''V1'', 3, 10, 20), (''V1'', 4, 20, 31)]"
proof -
  note t = prepare_lap_windows_join[of scenario_start scenario_end scenario_windows]
  note t1 = t[THEN conjunct1, THEN mp, OF scenario_result]
  have m: "map (\<lambda>w. (lw_vehicle_id w, lap_number w, lap_start_time w, lap_end_time w)) scenario_windows
       = [(''V1'', 3, 10, 20), (''V1'', 4, 20, 31)]"
    by (simp add: scenario_windows_def)
  have h: "has_lap_columns scenario_start" "has_lap_columns scenario_end"
    by (simp_all add: has_lap_columns_def scenario_start_def scenario_end_def)
  have c: "ev_columns (normalize_lap_bounds scenario_start) = [''vehicle_id'', ''lap_number'', ''timestamp'']"
    "ev_columns (normalize_lap_bounds scenario_end) = [''vehicle_id'', ''lap_number'', ''timestamp'']"
    by (simp_all add: normalize_lap_bounds_def rename_column_def scenario_start_def scenario_end_def)
  have "has_lap_columns scenario_start \<and> has_lap_columns scenario_end
      \<and> distinct (ev_columns (normalize_lap_bounds scenario_start))
      \<and> distinct (ev_columns (normalize_lap_bounds scenario_end))
      \<and> set (ev_columns (normalize_lap_bounds scenario_start))
            \<inter> set (ev_columns (normalize_lap_bounds scenario_end))
          \<subseteq> {''vehicle_id'', ''lap_number'', ''timestamp''}
      \<and> {''lap_start_time'', ''lap_end_time''}
            \<inter> (set (ev_columns (normalize_lap_bounds scenario_start))
                 \<union> set (ev_columns (normalize_lap_bounds scenario_end))) = {}"
    unfolding c using h by simp
  from t[THEN conjunct2, THEN mp, OF this]
  have e: "\<exists>ws'. prepare_lap_windows scenario_start scenario_end = Inr ws'" .
  from t1 have k: "set (map lw_key scenario_windows)
       = ev_key ` set (events scenario_start) \<inter> ev_key ` set (events scenario_end)"
    by blast
  from scenario_result h c e k m show ?thesis
    by (intro conjI)
qed

text \<open>
  Claim C6, counterexample to the claim as stated: both tables have the required columns,
  the start table has a further column \<open>lap_end_time\<close>, the merge renames the two
  columns of that name apart, and the builder raises for the missing column.
\<close>

theorem lap_windows_column_clash:
  "has_lap_columns clash_start \<and> has_lap_columns plain_end
   \<and> prepare_lap_windows clash_start plain_end
       = Inl (MissingColumns ''lap_windows'' [''lap_end_time''])"
proof -
  have "has_lap_columns clash_start" "has_lap_columns plain_end"
    by (simp_all add: has_lap_columns_def clash_start_def plain_end_def)
  with clash_result show ?thesis by (intro conjI)
qed

text \<open>
  Claim C2, as the code has it. The builder compares no timestamps of different events.
  Whenever it accepts two tables, its windows are ordered by strictly increasing lap
  number within a vehicle, and the duration is the end time minus the start time. When
  every start event of a lap precedes every end event of that lap, each window has its
  start before its end. When moreover every end event of a lap is no later than every
  start event of a later lap of the same vehicle, the windows of a vehicle follow each
  other in time and share at most a boundary instant: a window listed before another
  of its vehicle starts before it ends, ends no later than the other starts, and the
  other starts before it ends.
\<close>

theorem lap_windows_ordered:
  assumes "prepare_lap_windows lap_start lap_end = Inr ws"
  shows "sorted_wrt (\<lambda>a b. lw_vehicle_id a = lw_vehicle_id b \<longrightarrow> lap_number a < lap_number b) ws
     \<and> (\<forall>w \<in> set ws. lap_duration_s w = of_int (lap_end_time w - lap_start_time w) / 1000000000)
     \<and> ((\<forall>s \<in> set (events lap_start). \<forall>e \<in> set (events lap_end).
             ev_key s = ev_key e \<longrightarrow> ev_timestamp s < ev_timestamp e)
          \<longrightarrow> (\<forall>w \<in> set ws. lap_start_time w < lap_end_time w))
     \<and> ((\<forall>s \<in> set (events lap_start). \<forall>e \<in> set (events lap_end).
             ev_key s = ev_key e \<longrightarrow> ev_timestamp s < ev_timestamp e)
          \<and> (\<forall>e \<in> set (events lap_end). \<forall>s \<in> set (events lap_start).
             ev_vehicle_id e = ev_vehicle_id s \<and> ev_lap_number e < ev_lap_number s
               \<longrightarrow> ev_timestamp e \<le> ev_timestamp s)
          \<longrightarrow> sorted_wrt (\<lambda>a b. lw_vehicle_id a = lw_vehicle_id b
                             \<longrightarrow> lap_start_time a < lap_end_time a
                               \<and> lap_end_time a \<le> lap_start_time b
                               \<and> lap_start_time b < lap_end_time b) ws)"
proof -
  let ?ws = "sort_key lw_key (map make_window (joined (dedup_starts lap_start) (dedup_ends lap_end)))"
  note r = prepare_lap_windows_Inr(3)[OF assms]
  have st: "sorted_wrt (\<lambda>a b. lw_key a < lw_key b) ?ws"
    by (rule windows_strictly_keyed)
  have o: "sorted_wrt (\<lambda>a b. lw_vehicle_id a = lw_vehicle_id b \<longrightarrow> lap_number a < lap_number b) ?ws"
    by (rule sorted_wrt_mono_rel[OF _ st]) (auto simp: lw_key_def)
  have d: "\<forall>w \<in> set ?ws. lap_duration_s w = of_int (lap_end_time w - lap_start_time w) / 1000000000"
    using window_times by blast
  have h1: "\<forall>w \<in> set ?ws. lap_start_time w < lap_end_time w"
    if H: "\<forall>s \<in> set (events lap_start). \<forall>e \<in> set (events lap_end).
             ev_key s = ev_key e \<longrightarrow> ev_timestamp s < ev_timestamp e"
  proof
    fix w assume "w \<in> set ?ws"
    from window_times[OF this] obtain s e where
      "s \<in> set (events lap_start)" "ev_key s = lw_key w" "ev_timestamp s = lap_start_time w"
      "e \<in> set (events lap_end)" "ev_key e = lw_key w" "ev_timestamp e = lap_end_time w"
      by blast
    with H show "lap_start_time w < lap_end_time w" by fastforce
  qed
  have h2: "sorted_wrt (\<lambda>a b. lw_vehicle_id a = lw_vehicle_id b
                             \<longrightarrow> lap_start_time a < lap_end_time a
                               \<and> lap_end_time a \<le> lap_start_time b
                               \<and> lap_start_time b < lap_end_time b) ?ws"
    if H1: "\<forall>s \<in> set (events lap_start). \<forall>e \<in> set (events lap_end).
             ev_key s = ev_key e \<longrightarrow> ev_timestamp s < ev_timestamp e"
    and H2: "\<forall>e \<in> set (events lap_end). \<forall>s \<in> set (events lap_start).
             ev_vehicle_id e = ev_vehicle_id s \<and> ev_lap_number e < ev_lap_number s
               \<longrightarrow> ev_timestamp e \<le> ev_timestamp s"
  proof (rule sorted_wrt_mono_rel[OF _ o])
    fix a b assume ab: "a \<in> set ?ws" "b \<in> set ?ws"
      and lt: "lw_vehicle_id a = lw_vehicle_id b \<longrightarrow> lap_number a < lap_number b"
    show "lw_vehicle_id a = lw_vehicle_id b
            \<longrightarrow> lap_start_time a < lap_end_time a
              \<and> lap_end_time a \<le> lap_start_time b
              \<and> lap_start_time b < lap_end_time b"
    proof
      assume v: "lw_vehicle_id a = lw_vehicle_id b"
      from window_times[OF ab(1)] obtain e where
        e: "e \<in> set (events lap_end)" "ev_key e = lw_key a" "ev_timestamp e = lap_end_time a"
        by blast
      from window_times[OF ab(2)] obtain s where
        s: "s \<in> set (events lap_start)" "ev_key s = lw_key b" "ev_timestamp s = lap_start_time b"
        by blast
      from e(2) s(2) v lt have "ev_vehicle_id e = ev_vehicle_id s \<and> ev_lap_number e < ev_lap_number s"
        by (simp add: ev_key_def lw_key_def)
      with H2 e(1) s(1) have "ev_timestamp e \<le> ev_timestamp s" by blast
      with e(3) s(3) have "lap_end_time a \<le> lap_start_time b" by simp
      with h1[OF H1] ab show "lap_start_time a < lap_end_time a
              \<and> lap_end_time a \<le> lap_start_time b
              \<and> lap_start_time b < lap_end_time b"
        by blast
    qed
  qed
  from o d h1 h2 show ?thesis
    unfolding r by blast
qed

text \<open>
  Claim C2, witness: the two tables of the scenario are accepted and satisfy both
  conditions; lap 3 runs from 10 to 20 and lap 4 from 20 to 31.
\<close>

theorem lap_windows_ordered_witness:
  "prepare_lap_windows scenario_start scenario_end = Inr scenario_windows
   \<and> list_all (\<lambda>w. lap_start_time w < lap_end_time w) scenario_windows
   \<and> sorted_wrt (\<lambda>a b. lw_vehicle_id a = lw_vehicle_id b
                             \<longrightarrow> lap_start_time a < lap_end_time a
                               \<and> lap_end_time a \<le> lap_start_time b
                               \<and> lap_start_time b < lap_end_time b) scenario_windows
   \<and> map (\<lambda>w. (lap_number w, lap_start_time w, lap_end_time w)) scenario_windows
       = [(3, 10, 20), (4, 20, 31)]"
proof -
  have h1: "\<forall>s \<in> set (events scenario_start). \<forall>e \<in> set (events scenario_end).
             ev_key s = ev_key e \<longrightarrow> ev_timestamp s < ev_timestamp e"
    by (simp add: scenario_start_def scenario_end_def ev_key_def)
  have h2: "\<forall>e \<in> set (events scenario_end). \<forall>s \<in> set (events scenario_start).
             ev_vehicle_id e = ev_vehicle_id s \<and> ev_lap_number e < ev_lap_number s
               \<longrightarrow> ev_timestamp e \<le> ev_timestamp s"
    by (simp add: scenario_start_def scenario_end_def)
  note t = lap_windows_ordered[OF scenario_result]
  from t h1 have "\<forall>w \<in> set scenario_windows. lap_start_time w < lap_end_time w"
    by blast
  then have c1: "list_all (\<lambda>w. lap_start_time w < lap_end_time w) scenario_windows"
    unfolding list_all_iff .
  from t h1 h2 have c2: "sorted_wrt (\<lambda>a b. lw_vehicle_id a = lw_vehicle_id b
                             \<longrightarrow> lap_start_time a < lap_end_time a
                               \<and> lap_end_time a \<le> lap_start_time b
                               \<and> lap_start_time b < lap_end_time b) scenario_windows"
    by blast
  have m: "map (\<lambda>w. (lap_number w, lap_start_time w, lap_end_time w)) scenario_windows
       = [(3, 10, 20), (4, 20, 31)]"
    by (simp add: scenario_windows_def)
  from scenario_result c1 c2 m show ?thesis
    by (intro conjI)
qed

text \<open>
  Claim C2, counterexample to the claim as stated: the builder accepts the two tables,
  lap 1 of \<open>V1\<close> starts at 10 and ends at 5, and the window comes back as it is.
\<close>

theorem lap_window_start_after_end:
  "prepare_lap_windows reversed_start reversed_end = Inr [reversed_window]
   \<and> \<not> lap_start_time reversed_window < lap_end_time reversed_window"
proof -
  have "prepare_lap_windows reversed_start reversed_end = Inr [reversed_window]"
    by code_simp
  moreover have "\<not> lap_start_time reversed_window < lap_end_time reversed_window"
    by (simp add: reversed_window_def)
  ultimately show ?thesis by (rule conjI)
qed

section \<open>The lap assigner\<close>

lemma asof_backward_Some:
  assumes "asof_backward ws s = Some w"
  shows "w \<in> set ws \<and> lw_vehicle_id w = t_vehicle_id s \<and> lap_start_time w \<le> t_time s"
proof -
  let ?cs = "filter (\<lambda>w. lw_vehicle_id w = t_vehicle_id s \<and> lap_start_time w \<le> t_time s) ws"
  from assms have ne: "?cs \<noteq> []" and w: "w = last ?cs"
    by (auto simp: asof_backward_def split: list.splits)
  from ne have "last ?cs \<in> set ?cs" by (rule last_in_set)
  with w show ?thesis by simp
qed

lemma mask_row_sound:
  assumes "a \<in> set (mask_row s (asof_backward ws s))"
  shows "a_sample a = s \<and> a_window a \<in> set ws
       \<and> lw_vehicle_id (a_window a) = t_vehicle_id s
       \<and> lap_start_time (a_window a) \<le> t_time s \<and> t_time s \<le> lap_end_time (a_window a)"
proof (cases "asof_backward ws s")
  case None
  with assms show ?thesis by (simp add: mask_row_def)
next
  case (Some w)
  with assms have "a = \<lparr>a_sample = s, a_window = w\<rparr>" "t_time s \<le> lap_end_time w"
    by (auto simp: mask_row_def split: if_splits)
  with asof_backward_Some[OF Some] show ?thesis by simp
qed

lemma mask_row_samples:
  "map a_sample (mask_row s m) = (if mask_row s m = [] then [] else [s])"
  by (simp add: mask_row_def split: option.splits)

lemma kept_samples_filter:
  "map a_sample (concat (map (\<lambda>s. mask_row s (f s)) xs))
     = filter (\<lambda>s. mask_row s (f s) \<noteq> []) xs"
  by (induction xs) (simp_all add: mask_row_samples)

lemma assign_laps_Inr:
  assumes "assign_laps vehicle_col time_col telemetry lap_windows = Inr out"
  shows "assign_laps vehicle_col time_col (telemetry\<lparr>t_rows := samples\<rparr>) lap_windows
       = Inr (concat (map (\<lambda>s. mask_row s (asof_backward
                (sort_key (\<lambda>w. (lap_start_time w, lw_vehicle_id w)) (windows lap_windows)) s))
              (sort_key (\<lambda>s. (t_time s, t_vehicle_id s)) samples)))"
proof -
  let ?right = "filter (\<lambda>c. c \<noteq> vehicle_col \<and> (c \<noteq> ''lap_start_time'' \<or> c \<noteq> time_col))
                      (lw_columns lap_windows)"
  note [simp del] = sort_values_labels.simps getitem_labels.simps set_simps filter.simps
  show ?thesis
  proof (cases "ensure_columns (t_columns telemetry) [vehicle_col, time_col] ''telemetry''")
    case Inl with assms show ?thesis by (simp add: assign_laps_def)
  next
    case e: Inr
    show ?thesis
    proof (cases "sort_values_labels (t_columns telemetry) [time_col, vehicle_col]")
      case Inl with assms e show ?thesis by (simp add: assign_laps_def)
    next
      case s1: Inr
      show ?thesis
      proof (cases "sort_values_labels (lw_columns lap_windows) [''lap_start_time'', vehicle_col]")
        case Inl with assms e s1 show ?thesis by (simp add: assign_laps_def)
      next
        case s2: Inr
        show ?thesis
        proof (cases "vehicle_col \<in> set [time_col, ''lap_start_time'', ''lap_end_time'']")
          case True with assms e s1 s2 show ?thesis by (simp add: assign_laps_def)
        next
          case v: False
          show ?thesis
          proof (cases "merge_labels (\<lambda>x suffix. x @ suffix) (t_columns telemetry) ?right")
            case Inl with assms e s1 s2 v show ?thesis by (simp add: assign_laps_def Let_def)
          next
            case (Inr p)
            obtain llabels rlabels where p: "p = (llabels, rlabels)" by (cases p)
            note m = Inr[unfolded p]
            show ?thesis
            proof (cases "getitem_labels (llabels @ rlabels) [time_col, ''lap_end_time'']")
              case Inl with assms e s1 s2 v m show ?thesis by (simp add: assign_laps_def Let_def)
            next
              case g: Inr
              show ?thesis
              proof (cases "''lap_end_time'' \<in> set rlabels")
                case False with assms e s1 s2 v m g show ?thesis by (simp add: assign_laps_def Let_def)
              next
                case True with e s1 s2 v m g show ?thesis by (simp add: assign_laps_def Let_def)
              qed
            qed
          qed
        qed
      qed
    qed
  qed
qed

lemma assign_laps_accepts:
  assumes d: "distinct (t_columns telemetry)" "distinct (lw_columns lap_windows)"
    and i: "set (t_columns telemetry) \<inter> set (lw_columns lap_windows) = {vehicle_col}"
    and t: "time_col \<in> set (t_columns telemetry)"
    and w: "''lap_start_time'' \<in> set (lw_columns lap_windows)"
           "''lap_end_time'' \<in> set (lw_columns lap_windows)"
    and v: "vehicle_col \<notin> {time_col, ''lap_start_time'', ''lap_end_time''}"
  shows "\<exists>out. assign_laps vehicle_col time_col telemetry lap_windows = Inr out"
proof -
  define right where
    "right = filter (\<lambda>c. c \<noteq> vehicle_col \<and> (c \<noteq> ''lap_start_time'' \<or> c \<noteq> time_col))
               (lw_columns lap_windows)"
  have "vehicle_col \<in> set (t_columns telemetry) \<inter> set (lw_columns lap_windows)"
    unfolding i by simp
  then have vc: "vehicle_col \<in> set (t_columns telemetry)" "vehicle_col \<in> set (lw_columns lap_windows)"
    by simp_all
  have only: "c = vehicle_col"
    if "c \<in> set (t_columns telemetry)" "c \<in> set (lw_columns lap_windows)" for c
  proof -
    from that have "c \<in> set (t_columns telemetry) \<inter> set (lw_columns lap_windows)" by simp
    then show ?thesis unfolding i by simp
  qed
  from v have v': "vehicle_col \<noteq> time_col" "vehicle_col \<noteq> ''lap_start_time''"
    "vehicle_col \<noteq> ''lap_end_time''" by simp_all
  have tw: "time_col \<notin> set (lw_columns lap_windows)"
    using only[OF t] v'(1) by blast
  have e: "ensure_columns (t_columns telemetry) [vehicle_col, time_col] ''telemetry'' = Inr ()"
    using vc(1) t by (intro ensure_columns_ok) simp
  have s1: "sort_values_labels (t_columns telemetry) [time_col, vehicle_col] = Inr ()"
    using vc(1) t by (intro sort_values_labels_ok[OF d(1)]) simp
  have s2: "sort_values_labels (lw_columns lap_windows) [''lap_start_time'', vehicle_col] = Inr ()"
    using vc(2) w(1) by (intro sort_values_labels_ok[OF d(2)]) simp
  have dj: "set (t_columns telemetry) \<inter> set right = {}"
  proof (rule ccontr)
    assume "set (t_columns telemetry) \<inter> set right \<noteq> {}"
    then obtain c where c: "c \<in> set (t_columns telemetry)" "c \<in> set right" by blast
    from c(2) have "c \<in> set (lw_columns lap_windows)" "c \<noteq> vehicle_col"
      by (simp_all add: right_def)
    with only[OF c(1)] show False by blast
  qed
  have m: "merge_labels (\<lambda>x suffix. x @ suffix) (t_columns telemetry) right
             = Inr (t_columns telemetry, right)"
    by (rule merge_labels_disjoint[OF dj])
  have le: "''lap_end_time'' \<in> set right"
    using w(2) v'(3) by (simp add: right_def)
  have dr: "distinct right" unfolding right_def using d(2) by (rule distinct_filter)
  have dd: "distinct (t_columns telemetry @ right)"
    using d(1) dr dj by (simp only: distinct_append)
  have g: "getitem_labels (t_columns telemetry @ right) [time_col, ''lap_end_time''] = Inr ()"
  proof (rule getitem_labels_ok[OF dd])
    show "set [time_col, ''lap_end_time''] \<subseteq> set (t_columns telemetry @ right)"
      using t le by (simp del: set_filter)
  qed
  have nv: "vehicle_col \<notin> set [time_col, ''lap_start_time'', ''lap_end_time'']"
    using v' by simp
  note [simp del] = sort_values_labels.simps getitem_labels.simps set_simps filter.simps set_filter
  show ?thesis
    unfolding assign_laps_def Let_def right_def[symmetric]
    by (simp add: e s1 s2 m g le nv)
qed

lemma assign_tel0: "assign_laps ''vehicle_id'' ''meta_time'' tel0 windows0 = Inr tagged0"
  by code_simp

text \<open>
  Claim C3. Whenever \<open>assign_laps\<close> returns normally, every row it keeps carries one
  window, which is a window of the sample's vehicle and contains the sample's timestamp;
  every sample occurs in the output at most as often as in the input; a sample that lies
  in no window of its vehicle (before the first start, after the last end, or in a gap)
  is not in the output; and the call returns normally whatever rows the telemetry frame
  holds, so that no sample, in a window or outside all of them, makes it raise. It does
  return normally when the two frames have distinct column names and share only the
  vehicle column, the telemetry has the time column, the windows have
  \<open>lap_start_time\<close> and \<open>lap_end_time\<close>, and the vehicle column is none of these
  three.
\<close>

theorem assign_laps_sound:
  "(assign_laps vehicle_col time_col telemetry lap_windows = Inr out \<longrightarrow>
       (\<forall>a \<in> set out.
           a_sample a \<in> set (t_rows telemetry) \<and> a_window a \<in> set (windows lap_windows)
         \<and> lw_vehicle_id (a_window a) = t_vehicle_id (a_sample a)
         \<and> lap_start_time (a_window a) \<le> t_time (a_sample a)
         \<and> t_time (a_sample a) \<le> lap_end_time (a_window a))
     \<and> mset (map a_sample out) \<subseteq># mset (t_rows telemetry)
     \<and> (\<forall>s \<in> set (t_rows telemetry).
           (\<forall>w \<in> set (windows lap_windows). lw_vehicle_id w = t_vehicle_id s
                \<longrightarrow> t_time s < lap_start_time w \<or> lap_end_time w < t_time s)
           \<longrightarrow> s \<notin> a_sample ` set out)
     \<and> (\<forall>samples. \<exists>out'.
           assign_laps vehicle_col time_col (telemetry\<lparr>t_rows := samples\<rparr>) lap_windows = Inr out'))
   \<and> (distinct (t_columns telemetry) \<and> distinct (lw_columns lap_windows)
      \<and> set (t_columns telemetry) \<inter> set (lw_columns lap_windows) = {vehicle_col}
      \<and> time_col \<in> set (t_columns telemetry)
      \<and> ''lap_start_time'' \<in> set (lw_columns lap_windows)
      \<and> ''lap_end_time'' \<in> set (lw_columns lap_windows)
      \<and> vehicle_col \<notin> {time_col, ''lap_start_time'', ''lap_end_time''}
      \<longrightarrow> (\<exists>out'. assign_laps vehicle_col time_col telemetry lap_windows = Inr out'))"
proof (intro conjI impI)
  let ?tel = "sort_key (\<lambda>s. (t_time s, t_vehicle_id s)) (t_rows telemetry)"
  let ?lws = "sort_key (\<lambda>w. (lap_start_time w, lw_vehicle_id w)) (windows lap_windows)"
  let ?out = "concat (map (\<lambda>s. mask_row s (asof_backward ?lws s)) ?tel)"
  assume r: "assign_laps vehicle_col time_col telemetry lap_windows = Inr out"
  from assign_laps_Inr[OF r, of "t_rows telemetry"] r have out: "out = ?out"
    by simp
  show snd: "\<forall>a \<in> set out.
           a_sample a \<in> set (t_rows telemetry) \<and> a_window a \<in> set (windows lap_windows)
         \<and> lw_vehicle_id (a_window a) = t_vehicle_id (a_sample a)
         \<and> lap_start_time (a_window a) \<le> t_time (a_sample a)
         \<and> t_time (a_sample a) \<le> lap_end_time (a_window a)"
  proof
    fix a assume "a \<in> set out"
    with out obtain s where s: "s \<in> set ?tel" "a \<in> set (mask_row s (asof_backward ?lws s))"
      by auto
    from mask_row_sound[OF s(2)] s(1) show
      "a_sample a \<in> set (t_rows telemetry) \<and> a_window a \<in> set (windows lap_windows)
         \<and> lw_vehicle_id (a_window a) = t_vehicle_id (a_sample a)
         \<and> lap_start_time (a_window a) \<le> t_time (a_sample a)
         \<and> t_time (a_sample a) \<le> lap_end_time (a_window a)"
      by simp
  qed
  have "mset (map a_sample ?out) = mset (filter (\<lambda>s. mask_row s (asof_backward ?lws s) \<noteq> []) ?tel)"
    by (simp only: kept_samples_filter)
  also have "\<dots> \<subseteq># mset ?tel"
    by simp
  finally show "mset (map a_sample out) \<subseteq># mset (t_rows telemetry)"
    unfolding out by simp
  show "\<forall>s \<in> set (t_rows telemetry).
           (\<forall>w \<in> set (windows lap_windows). lw_vehicle_id w = t_vehicle_id s
                \<longrightarrow> t_time s < lap_start_time w \<or> lap_end_time w < t_time s)
           \<longrightarrow> s \<notin> a_sample ` set out"
  proof (intro ballI impI notI)
    fix s assume s: "s \<in> set (t_rows telemetry)"
      and o: "\<forall>w \<in> set (windows lap_windows). lw_vehicle_id w = t_vehicle_id s
                \<longrightarrow> t_time s < lap_start_time w \<or> lap_end_time w < t_time s"
      and "s \<in> a_sample ` set out"
    then obtain a where a: "a \<in> set out" "a_sample a = s" by auto
    from snd a have "a_window a \<in> set (windows lap_windows)"
      "lw_vehicle_id (a_window a) = t_vehicle_id s"
      "lap_start_time (a_window a) \<le> t_time s" "t_time s \<le> lap_end_time (a_window a)"
      by auto
    with o show False by force
  qed
  show "\<forall>samples. \<exists>out'.
           assign_laps vehicle_col time_col (telemetry\<lparr>t_rows := samples\<rparr>) lap_windows = Inr out'"
    using assign_laps_Inr[OF r] by blast
next
  assume "distinct (t_columns telemetry) \<and> distinct (lw_columns lap_windows)
      \<and> set (t_columns telemetry) \<inter> set (lw_columns lap_windows) = {vehicle_col}
      \<and> time_col \<in> set (t_columns telemetry)
      \<and> ''lap_start_time'' \<in> set (lw_columns lap_windows)
      \<and> ''lap_end_time'' \<in> set (lw_columns lap_windows)
      \<and> vehicle_col \<notin> {time_col, ''lap_start_time'', ''lap_end_time''}"
  then show "\<exists>out'. assign_laps vehicle_col time_col telemetry lap_windows = Inr out'"
    by (elim conjE) (rule assign_laps_accepts)
qed

text \<open>
  Claim C3, witness: the two frames share only the vehicle column. Of five samples, the
  two of \<open>V1\<close> at 20 and 25 are kept in the window of lap 4; the sample at 5 lies
  before the first start, the one at 40 after the last end, and \<open>V2\<close> has no window.
  With no rows at all the call returns as well.
\<close>

theorem assign_laps_sound_witness:
  "assign_laps ''vehicle_id'' ''meta_time'' tel0 windows0 = Inr tagged0
   \<and> list_all (\<lambda>a. lw_vehicle_id (a_window a) = t_vehicle_id (a_sample a)
                     \<and> lap_start_time (a_window a) \<le> t_time (a_sample a)
                     \<and> t_time (a_sample a) \<le> lap_end_time (a_window a)) tagged0
   \<and> map (\<lambda>a. (t_time (a_sample a), lap_number (a_window a))) tagged0 = [(20, 4), (25, 4)]
   \<and> \<lparr>t_vehicle_id = ''V1'', t_time = 5, t_payload = ()\<rparr> \<notin> a_sample ` set tagged0
   \<and> \<lparr>t_vehicle_id = ''V1'', t_time = 40, t_payload = ()\<rparr> \<notin> a_sample ` set tagged0
   \<and> (\<exists>out'. assign_laps ''vehicle_id'' ''meta_time'' (tel0\<lparr>t_rows := []\<rparr>) windows0 = Inr out')
   \<and> set (t_columns tel0) \<inter> set (lw_columns windows0) = {''vehicle_id''}"
proof -
  note t = assign_laps_sound[of "''vehicle_id''" "''meta_time''" tel0 windows0 tagged0]
  note t1 = t[THEN conjunct1, THEN mp, OF assign_tel0]
  from t1[THEN conjunct1]
  have "\<forall>a \<in> set tagged0.
           lw_vehicle_id (a_window a) = t_vehicle_id (a_sample a)
         \<and> lap_start_time (a_window a) \<le> t_time (a_sample a)
         \<and> t_time (a_sample a) \<le> lap_end_time (a_window a)"
    by blast
  then have l: "list_all (\<lambda>a. lw_vehicle_id (a_window a) = t_vehicle_id (a_sample a)
                     \<and> lap_start_time (a_window a) \<le> t_time (a_sample a)
                     \<and> t_time (a_sample a) \<le> lap_end_time (a_window a)) tagged0"
    unfolding list_all_iff .
  have m: "map (\<lambda>a. (t_time (a_sample a), lap_number (a_window a))) tagged0 = [(20, 4), (25, 4)]"
    by (simp add: tagged0_def windows0_def)
  have d: "\<lparr>t_vehicle_id = ''V1'', t_time = 5, t_payload = ()\<rparr> \<notin> a_sample ` set tagged0"
    "\<lparr>t_vehicle_id = ''V1'', t_time = 40, t_payload = ()\<rparr> \<notin> a_sample ` set tagged0"
    by (simp_all add: tagged0_def)
  from t1[THEN conjunct2, THEN conjunct2, THEN conjunct2]
  have e: "\<exists>out'. assign_laps ''vehicle_id'' ''meta_time'' (tel0\<lparr>t_rows := []\<rparr>) windows0 = Inr out'"
    by (rule spec)
  have c: "set (t_columns tel0) \<inter> set (lw_columns windows0) = {''vehicle_id''}"
    by (auto simp: tel0_def windows0_def)
  from assign_tel0 l m d e c show ?thesis
    by (intro conjI)
qed

section \<open>The signal pivot\<close>

lemma drop_duplicated_columns_names:
  "set (labels (drop_duplicated_columns df)) = set (labels df)"
  using keys_drop_duplicates_first[of fst df] by (simp add: drop_duplicated_columns_def labels_def)

lemma distinct_labels_dedup: "distinct (labels (drop_duplicated_columns df))"
  unfolding labels_def drop_duplicated_columns_def by (rule distinct_drop_duplicates_first)

lemma drop_duplicated_columns_id: "distinct (labels df) \<Longrightarrow> drop_duplicated_columns df = df"
  unfolding labels_def drop_duplicated_columns_def by (rule drop_duplicates_first_id)

lemma pivot_passthrough:
  assumes "\<not> set [Str DEFAULT_VEHICLE_COL, Str ''lap'', Str DEFAULT_TIMESTAMP_COL,
                   Str signal_name_col, Str signal_value_col] \<subseteq> set (labels df)"
  shows "pivot_telemetry_signals signal_name_col signal_value_col df
           = Inr (drop_duplicated_columns df)"
proof -
  have "\<not> set [Str DEFAULT_VEHICLE_COL, Str ''lap'', Str DEFAULT_TIMESTAMP_COL,
                   Str signal_name_col, Str signal_value_col]
                     \<subseteq> set (labels (drop_duplicated_columns df))"
    unfolding drop_duplicated_columns_names by (rule assms)
  then show ?thesis
    unfolding pivot_telemetry_signals_def Let_def by (rule if_P)
qed

lemma drop_duplicates_first_snoc:
  "drop_duplicates_first key (xs @ [x]) =
     (if key x \<in> key ` set xs then drop_duplicates_first key xs
      else drop_duplicates_first key xs @ [x])"
  by (simp add: drop_duplicates_first_def)

lemma map_of_drop_duplicates_first:
  "map_of (drop_duplicates_first fst df) k = map_of df k"
proof (induction df rule: rev_induct)
  case Nil
  show ?case by (simp add: drop_duplicates_first_def)
next
  case (snoc x xs)
  show ?case
  proof (cases "fst x \<in> fst ` set xs")
    case True
    then have "map_of xs (fst x) \<noteq> None" by (simp add: map_of_eq_None_iff)
    with snoc True show ?thesis
      by (cases x) (auto simp: drop_duplicates_first_snoc map_add_def split: option.splits)
  next
    case False
    with snoc show ?thesis
      by (simp add: drop_duplicates_first_snoc map_add_def split: option.splits)
  qed
qed

lemma column_of_dedup: "column_of (drop_duplicated_columns df) l = column_of df l"
  by (simp add: column_of_def drop_duplicated_columns_def map_of_drop_duplicates_first)

lemma column_length:
  assumes "list_all (\<lambda>(l, c). length c = n_rows df) df" "l \<in> set (labels df)"
  shows "length (column_of df l) = n_rows df"
proof -
  from assms(2) have "map_of df l \<noteq> None"
    by (simp add: map_of_eq_None_iff labels_def)
  then obtain c where c: "map_of df l = Some c" by blast
  then have "(l, c) \<in> set df" by (rule map_of_SomeD)
  with assms(1) have "length c = n_rows df" by (auto simp: list_all_iff)
  with c show ?thesis by (simp add: column_of_def)
qed

lemma pivot_table_names_distinct: "distinct (snd (pivot_table df index_cols name_col value_col))"
  by (simp add: pivot_table_def Let_def)

lemma pivot_table_names_cells:
  "set (snd (pivot_table df index_cols name_col value_col))
     \<subseteq> (\<lambda>i. column_of df name_col ! i) ` {0..<n_rows df}"
  by (auto simp: pivot_table_def Let_def)

lemma pivot_table_names:
  assumes "list_all (\<lambda>(l, c). length c = n_rows df) df" "name_col \<in> set (labels df)"
    and "pivot_table df index_cols name_col value_col = (table, names)"
  shows "distinct names" and "set names \<subseteq> set (column_of df name_col)"
proof -
  from assms(3) have n: "names = snd (pivot_table df index_cols name_col value_col)" by simp
  show "distinct names" unfolding n by (rule pivot_table_names_distinct)
  have "(\<lambda>i. column_of df name_col ! i) ` {0..<n_rows df} \<subseteq> set (column_of df name_col)"
    using column_length[OF assms(1,2)] by auto
  with pivot_table_names_cells[of df index_cols name_col value_col]
  show "set names \<subseteq> set (column_of df name_col)" unfolding n by (rule subset_trans)
qed

lemma labels_frame: "labels (map (\<lambda>j. (ls ! j, f j)) [0..<length ls]) = ls"
  by (simp add: labels_def o_def map_nth)

lemma if_Inl_Inr: "(if c then Inl e else x) = Inr y \<Longrightarrow> \<not> c \<and> x = Inr y"
  by (simp split: if_splits)

lemma pivot_long_labels:
  assumes r: "pivot_long signal_name_col signal_value_col df = Inr df'"
    and req: "Str signal_name_col \<in> set (labels df)"
    and m: "set (column_of df (Str signal_name_col))
              \<inter> {Str ''lap_start_time'', Str ''lap_end_time'', Str ''lap_duration_s''} = {}"
  shows "distinct (labels df')"
    and "Str signal_name_col \<in> set (labels df')
           \<Longrightarrow> Str signal_name_col \<in> set (column_of df (Str signal_name_col))"
    and "Str signal_value_col \<in> set (labels df')
           \<Longrightarrow> Str signal_value_col \<in> set (column_of df (Str signal_name_col))"
proof -
  define index where "index = [Str DEFAULT_VEHICLE_COL, Str ''lap'', Str DEFAULT_TIMESTAMP_COL]"
  define meta where
    "meta = filter (\<lambda>col. col \<in> set (labels df))
              [Str ''lap_start_time'', Str ''lap_end_time'', Str ''lap_duration_s'']"
  obtain table names where
    pt: "pivot_table df index (Str signal_name_col) (Str signal_value_col) = (table, names)"
    by (cases "pivot_table df index (Str signal_name_col) (Str signal_value_col)")
  note r0 = r[unfolded pivot_long_def Let_def, folded index_def meta_def]
  note a1 = if_Inl_Inr[OF r0]
  note a2 = if_Inl_Inr[OF a1[THEN conjunct2]]
  note a3 = if_Inl_Inr[OF a2[THEN conjunct2]]
  note a4 = if_Inl_Inr[OF a3[THEN conjunct2]]
  note a5 = if_Inl_Inr[OF a4[THEN conjunct2, unfolded pt prod.case]]
  note a6 = if_Inl_Inr[OF a5[THEN conjunct2]]
  from a1 have ragged: "list_all (\<lambda>(l, c). length c = n_rows df) df" by simp
  from a2 have sel: "distinct (index @ meta @ [Str signal_name_col, Str signal_value_col])"
    by (simp only: not_not)
  from a6 have "\<not> list_ex (\<lambda>nm. nm \<in> set index) names" by (rule conjunct1)
  then have ix_names: "set index \<inter> set names = {}"
    by (auto simp: list_ex_iff)
  note nm = pivot_table_names[OF ragged req pt]
  have meta_sub: "set meta \<subseteq> {Str ''lap_start_time'', Str ''lap_end_time'', Str ''lap_duration_s''}"
    by (auto simp: meta_def)
  from nm(2) m meta_sub have names_meta: "set names \<inter> set meta = {}"
    by blast
  from sel have d_ix: "distinct index" and d_meta: "distinct meta"
    and ix_meta: "set index \<inter> set meta = {}"
    and n_out: "Str signal_name_col \<notin> set index" "Str signal_name_col \<notin> set meta"
    and v_out: "Str signal_value_col \<notin> set index" "Str signal_value_col \<notin> set meta"
    by auto
  have lab: "labels df' = index @ names @ meta"
  proof (cases "meta = []")
    case True
    from a6[THEN conjunct2] True have "df' = map (\<lambda>j. ((index @ names) ! j, map (\<lambda>r. r ! j) table))
                        [0..<length (index @ names)]"
      by (simp only: simp_thms if_True sum.inject)
    then have "labels df' = index @ names"
      by (simp only: labels_frame)
    with True show ?thesis by simp
  next
    case False
    from ix_meta names_meta have "set (index @ names) \<inter> set meta = {}" by auto
    note ml = merge_labels_disjoint[OF this, of add_suffix_cell]
    from a6[THEN conjunct2] False
    have "(case merge_labels add_suffix_cell (index @ names) meta of
             Inl err \<Rightarrow> Inl err
           | Inr (llabels, rlabels) \<Rightarrow>
               Inr (map (\<lambda>j. ((llabels @ rlabels) ! j,
                        map (\<lambda>r. r ! j)
                          (concat (map (\<lambda>r.
                                     map (\<lambda>m. r @ drop (length index) m)
                                       (filter (\<lambda>m. take (length index) m = take (length index) r)
                                         (drop_duplicates_first id
                                           (map (row_cells df (index @ meta)) [0..<n_rows df]))))
                                     table))))
                     [0..<length (llabels @ rlabels)])) = Inr df'"
      by (simp only: simp_thms if_False)
    then have "df' = map (\<lambda>j. (((index @ names) @ meta) ! j,
                        map (\<lambda>r. r ! j)
                          (concat (map (\<lambda>r.
                                     map (\<lambda>m. r @ drop (length index) m)
                                       (filter (\<lambda>m. take (length index) m = take (length index) r)
                                         (drop_duplicates_first id
                                           (map (row_cells df (index @ meta)) [0..<n_rows df]))))
                                     table))))
                     [0..<length ((index @ names) @ meta)]"
      by (simp only: ml sum.case prod.case sum.inject simp_thms)
    then have "labels df' = (index @ names) @ meta"
      by (simp only: labels_frame)
    then show ?thesis by simp
  qed
  from d_ix nm(1) d_meta ix_names ix_meta names_meta
  show "distinct (labels df')" unfolding lab by auto
  {
    assume "Str signal_name_col \<in> set (labels df')"
    with n_out have "Str signal_name_col \<in> set names" unfolding lab by simp
    with nm(2) show "Str signal_name_col \<in> set (column_of df (Str signal_name_col))" by blast
  }
  {
    assume "Str signal_value_col \<in> set (labels df')"
    with v_out have "Str signal_value_col \<in> set names" unfolding lab by simp
    with nm(2) show "Str signal_value_col \<in> set (column_of df (Str signal_name_col))" by blast
  }
qed

lemma pivot_long0: "pivot_telemetry_signals ''telemetry_name'' ''telemetry_value'' long0 = Inr pivoted0"
  by code_simp

lemma pivot_long_twice:
  "pivot_telemetry_signals ''telemetry_name'' ''telemetry_value'' long_twice = Inr pivoted_once"
  by code_simp

lemma pivot_pivoted_once:
  "pivot_telemetry_signals ''telemetry_name'' ''telemetry_value'' pivoted_once = Inr pivoted_twice"
  by code_simp

text \<open>
  Claim C7, as the code has it. On a frame that lacks one of the five long-format
  columns, the pivot returns the frame with the later columns of a repeated label
  removed, so it returns the frame itself when the labels are distinct, and pivoting the
  result again changes nothing. On any frame, when the pivot returns normally, a second
  application returns its input, provided that the cells of the signal name column of the
  original frame include no lap metadata label and do not include both the name of the
  signal name column and the name of the signal value column.
\<close>

theorem pivot_idempotent:
  "(\<not> set [Str DEFAULT_VEHICLE_COL, Str ''lap'', Str DEFAULT_TIMESTAMP_COL,
            Str signal_name_col, Str signal_value_col] \<subseteq> set (labels df) \<longrightarrow>
       pivot_telemetry_signals signal_name_col signal_value_col df
         = Inr (drop_duplicated_columns df)
     \<and> (distinct (labels df) \<longrightarrow>
          pivot_telemetry_signals signal_name_col signal_value_col df = Inr df)
     \<and> pivot_telemetry_signals signal_name_col signal_value_col (drop_duplicated_columns df)
         = Inr (drop_duplicated_columns df))
   \<and> (pivot_telemetry_signals signal_name_col signal_value_col df = Inr df'
      \<and> set (column_of df (Str signal_name_col))
           \<inter> {Str ''lap_start_time'', Str ''lap_end_time'', Str ''lap_duration_s''} = {}
      \<and> \<not> (Str signal_name_col \<in> set (column_of df (Str signal_name_col))
            \<and> Str signal_value_col \<in> set (column_of df (Str signal_name_col)))
      \<longrightarrow> pivot_telemetry_signals signal_name_col signal_value_col df' = Inr df')"
proof -
  let ?req = "[Str DEFAULT_VEHICLE_COL, Str ''lap'', Str DEFAULT_TIMESTAMP_COL,
               Str signal_name_col, Str signal_value_col]"
  let ?d = "drop_duplicated_columns df"
  have again: "pivot_telemetry_signals signal_name_col signal_value_col ?d = Inr ?d"
    if "\<not> set ?req \<subseteq> set (labels df)"
  proof -
    from that have "\<not> set ?req \<subseteq> set (labels ?d)"
      unfolding drop_duplicated_columns_names .
    from pivot_passthrough[OF this] show ?thesis
      by (simp only: drop_duplicated_columns_id[OF distinct_labels_dedup])
  qed
  have pass: "pivot_telemetry_signals signal_name_col signal_value_col df = Inr ?d
     \<and> (distinct (labels df) \<longrightarrow>
          pivot_telemetry_signals signal_name_col signal_value_col df = Inr df)
     \<and> pivot_telemetry_signals signal_name_col signal_value_col ?d = Inr ?d"
    if n: "\<not> set ?req \<subseteq> set (labels df)"
  proof (intro conjI impI)
    show "pivot_telemetry_signals signal_name_col signal_value_col df = Inr ?d"
      by (rule pivot_passthrough[OF n])
    show "pivot_telemetry_signals signal_name_col signal_value_col ?d = Inr ?d"
      by (rule again[OF n])
    assume "distinct (labels df)"
    from pivot_passthrough[OF n] drop_duplicated_columns_id[OF this]
    show "pivot_telemetry_signals signal_name_col signal_value_col df = Inr df"
      by simp
  qed
  have twice: "pivot_telemetry_signals signal_name_col signal_value_col df' = Inr df'"
    if r: "pivot_telemetry_signals signal_name_col signal_value_col df = Inr df'"
      and m: "set (column_of df (Str signal_name_col))
           \<inter> {Str ''lap_start_time'', Str ''lap_end_time'', Str ''lap_duration_s''} = {}"
      and nv: "\<not> (Str signal_name_col \<in> set (column_of df (Str signal_name_col))
            \<and> Str signal_value_col \<in> set (column_of df (Str signal_name_col)))"
  proof (cases "set ?req \<subseteq> set (labels df)")
    case False
    from pivot_passthrough[OF False] r have "df' = ?d" by simp
    with again[OF False] show ?thesis by simp
  next
    case True
    then have sub: "set ?req \<subseteq> set (labels ?d)"
      unfolding drop_duplicated_columns_names .
    then have "\<not> \<not> set ?req \<subseteq> set (labels ?d)" by simp
    then have "pivot_telemetry_signals signal_name_col signal_value_col df
                 = pivot_long signal_name_col signal_value_col ?d"
      unfolding pivot_telemetry_signals_def Let_def by (rule if_not_P)
    with r have l: "pivot_long signal_name_col signal_value_col ?d = Inr df'" by simp
    from sub have req: "Str signal_name_col \<in> set (labels ?d)" by simp
    from m have m': "set (column_of ?d (Str signal_name_col))
           \<inter> {Str ''lap_start_time'', Str ''lap_end_time'', Str ''lap_duration_s''} = {}"
      by (simp only: column_of_dedup)
    note p = pivot_long_labels[OF l req m', unfolded column_of_dedup]
    from p(2,3) nv have "\<not> (Str signal_name_col \<in> set (labels df')
                            \<and> Str signal_value_col \<in> set (labels df'))"
      by blast
    then have "\<not> set ?req \<subseteq> set (labels df')" by auto
    from pivot_passthrough[OF this] drop_duplicated_columns_id[OF p(1)]
    show ?thesis by simp
  qed
  from pass twice show ?thesis by blast
qed

text \<open>
  Claim C7, witness: a wide frame with distinct labels comes back as it is. A long frame
  with the signals \<open>speed\<close> and \<open>gear\<close> and the start time of its laps is pivoted
  to a frame with a column for each signal, and this frame comes back as it is.
\<close>

theorem pivot_idempotent_witness:
  "pivot_telemetry_signals ''telemetry_name'' ''telemetry_value'' wide0 = Inr wide0
   \<and> pivot_telemetry_signals ''telemetry_name'' ''telemetry_value'' long0 = Inr pivoted0
   \<and> pivot_telemetry_signals ''telemetry_name'' ''telemetry_value'' pivoted0 = Inr pivoted0
   \<and> pivoted0 \<noteq> long0
   \<and> column_of long0 (Str ''telemetry_name'') = [Str ''speed'', Str ''speed'', Str ''gear'', Str ''speed'']"
proof -
  have a: "\<not> set [Str DEFAULT_VEHICLE_COL, Str ''lap'', Str DEFAULT_TIMESTAMP_COL,
                  Str ''telemetry_name'', Str ''telemetry_value''] \<subseteq> set (labels wide0)"
    by (simp add: wide0_def labels_def)
  have d: "distinct (labels wide0)"
    by (simp add: wide0_def labels_def)
  note t = pivot_idempotent[of "''telemetry_name''" "''telemetry_value''" wide0 wide0]
  from t[THEN conjunct1, THEN mp, OF a, THEN conjunct2, THEN conjunct1, THEN mp, OF d]
  have 1: "pivot_telemetry_signals ''telemetry_name'' ''telemetry_value'' wide0 = Inr wide0" .
  have c: "column_of long0 (Str ''telemetry_name'')
             = [Str ''speed'', Str ''speed'', Str ''gear'', Str ''speed'']"
    by (simp add: long0_def column_of_def)
  have m: "set (column_of long0 (Str ''telemetry_name''))
           \<inter> {Str ''lap_start_time'', Str ''lap_end_time'', Str ''lap_duration_s''} = {}"
    unfolding c by simp
  have nv: "\<not> (Str ''telemetry_name'' \<in> set (column_of long0 (Str ''telemetry_name''))
            \<and> Str ''telemetry_value'' \<in> set (column_of long0 (Str ''telemetry_name'')))"
    unfolding c by simp
  note u = pivot_idempotent[of "''telemetry_name''" "''telemetry_value''" long0 pivoted0]
  from u[THEN conjunct2, THEN mp, OF conjI[OF pivot_long0 conjI[OF m nv]]]
  have 2: "pivot_telemetry_signals ''telemetry_name'' ''telemetry_value'' pivoted0 = Inr pivoted0" .
  have 3: "pivoted0 \<noteq> long0"
    by (simp add: pivoted0_def long0_def)
  from 1 pivot_long0 2 3 c show ?thesis
    by (intro conjI)
qed

text \<open>
  Claim C7, counterexample to the claim as stated. A wide frame with two columns called
  \<open>speed\<close> lacks the long-format columns and comes back with one of them. And a long frame
  whose two signals are called \<open>telemetry_name\<close> and \<open>telemetry_value\<close> is pivoted to a
  frame that has the five long-format columns again, so that the second application
  pivots once more and returns another frame.
\<close>

theorem pivot_not_idempotent:
  "\<not> set [Str DEFAULT_VEHICLE_COL, Str ''lap'', Str DEFAULT_TIMESTAMP_COL,
          Str ''telemetry_name'', Str ''telemetry_value''] \<subseteq> set (labels wide_dup)
   \<and> pivot_telemetry_signals ''telemetry_name'' ''telemetry_value'' wide_dup
       = Inr [(Str ''vehicle_id'', [Str ''V1'', Str ''V1'']), (Str ''speed'', [Num 100, Num 110])]
   \<and> [(Str ''vehicle_id'', [Str ''V1'', Str ''V1'']), (Str ''speed'', [Num 100, Num 110])] \<noteq> wide_dup
   \<and> pivot_telemetry_signals ''telemetry_name'' ''telemetry_value'' long_twice = Inr pivoted_once
   \<and> pivot_telemetry_signals ''telemetry_name'' ''telemetry_value'' pivoted_once = Inr pivoted_twice
   \<and> pivoted_twice \<noteq> pivoted_once"
proof -
  have 1: "\<not> set [Str DEFAULT_VEHICLE_COL, Str ''lap'', Str DEFAULT_TIMESTAMP_COL,
          Str ''telemetry_name'', Str ''telemetry_value''] \<subseteq> set (labels wide_dup)"
    by (simp add: wide_dup_def labels_def)
  have 2: "pivot_telemetry_signals ''telemetry_name'' ''telemetry_value'' wide_dup
       = Inr [(Str ''vehicle_id'', [Str ''V1'', Str ''V1'']), (Str ''speed'', [Num 100, Num 110])]"
    by code_simp
  have 3: "[(Str ''vehicle_id'', [Str ''V1'', Str ''V1'']), (Str ''speed'', [Num 100, Num 110])] \<noteq> wide_dup"
    by (simp add: wide_dup_def)
  have 4: "pivoted_twice \<noteq> pivoted_once"
    by (simp add: pivoted_twice_def pivoted_once_def)
  from 1 2 3 pivot_long_twice pivot_pivoted_once 4 show ?thesis
    by (intro conjI)
qed

section \<open>The per-lap aggregator\<close>



lemma group_keys_sorted: "sorted (group_keys rs)"
  by (simp add: group_keys_def)






end
